theory Spec2Isabelle
  imports Complex_Main "HOL-Library.Word" "HOL-Library.Sublist"
begin

section \<open>Kakeibo Lens: storage, aggregation, trend, export and category normalisation\<close>

text \<open>
  A shallow embedding of the pure logic of the application: \<^verbatim>\<open>lib/storage.ts\<close>,
  \<^verbatim>\<open>types/kakeibo.ts\<close>, the aggregation of the home screen
  (\<^verbatim>\<open>calculateMonthlySummary\<close>), the analytics screen (\<^verbatim>\<open>getCategoryData\<close>,
  \<^verbatim>\<open>getMonthlyTrendData\<close>), the scan screen (\<^verbatim>\<open>analyzeImage\<close>) and the
  analysis service's \<^verbatim>\<open>normalizeCategoryName\<close>.

  Conventions of the embedding.
  \<^item> A JavaScript string is the list of its UTF-16 code units. The Japanese literals of
    the source are written as code units, with a romanised name in the comment.
  \<^item> A field \<^verbatim>\<open>f\<close> of an interface is the record field \<^verbatim>\<open>x_f\<close>, the prefix naming
    the interface (\<^verbatim>\<open>c_\<close> Category, \<^verbatim>\<open>e_\<close> KakeiboEntry, \<^verbatim>\<open>a_\<close> an entry of the
    analysis result, \<^verbatim>\<open>b_\<close> a row of the category breakdown, \<^verbatim>\<open>s_\<close> MonthlySummary,
    \<^verbatim>\<open>m_\<close> the accumulator held in the aggregation's Map).
  \<^item> Amounts are integers (yen), below \<open>2^53\<close> like their sums, so that doubles hold them
    exactly; the source does not reject a negative amount, so the type is \<open>int\<close>. A
    quotient or a product is rounded as a double rounds it (\<open>binary64\<close>). A division yields
    a \<open>jsnum\<close>, so that a division by zero is visible as \<open>NaN\<close> or an infinity, as in
    JavaScript, and not as HOL's \<open>x / 0 = 0\<close>.
  \<^item> The key-value store holds JSON text; the model holds the value the text encodes
    (\<^verbatim>\<open>JSON.parse (JSON.stringify v) = v\<close> on these records) and takes every call of the
    store to succeed, so the \<^verbatim>\<open>catch\<close> branches around a rejected store call are not
    reached.
  \<^item> What the platform decides is a parameter: the clock (\<^verbatim>\<open>new Date().toISOString()\<close>,
    \<^verbatim>\<open>Date.now()\<close>), \<^verbatim>\<open>Math.random()\<close>, the parsing of a date string by \<^verbatim>\<open>new Date\<close> in
    the local time zone, and Unicode lower-casing (\<^verbatim>\<open>toLowerCase\<close>).
\<close>

subsection \<open>Strings and numbers\<close>

type_synonym jsstring = "16 word list"

definition str :: "string \<Rightarrow> jsstring" where
  "str cs = map of_char cs"

text \<open>\<^verbatim>\<open>String.prototype.includes\<close>: the key occurs as a contiguous run of code units.\<close>

fun js_includes :: "jsstring \<Rightarrow> jsstring \<Rightarrow> bool" where
  "js_includes [] k = (k = [])"
| "js_includes (x # xs) k = (prefix k (x # xs) \<or> js_includes xs k)"

text \<open>\<^verbatim>\<open>String.prototype.trim\<close> removes the WhiteSpace and LineTerminator code points of
  ECMAScript from both ends.\<close>

definition isWhiteSpace :: "16 word \<Rightarrow> bool" where
  "isWhiteSpace c =
     (c \<in> {0x0009, 0x000A, 0x000B, 0x000C, 0x000D, 0x0020, 0x00A0, 0x1680,
            0x2028, 0x2029, 0x202F, 0x205F, 0x3000, 0xFEFF}
      \<or> (0x2000 \<le> c \<and> c \<le> 0x200A))"

definition trim :: "jsstring \<Rightarrow> jsstring" where
  "trim s = rev (dropWhile isWhiteSpace (rev (dropWhile isWhiteSpace s)))"

text \<open>An instance of lower-casing for evaluation: the ASCII capitals are mapped, every
  other code unit is kept. (The theorems below hold for every lower-casing function.)\<close>

definition asciiLower :: "jsstring \<Rightarrow> jsstring" where
  "asciiLower s = map (\<lambda>c. if 0x41 \<le> c \<and> c \<le> 0x5A then c + 0x20 else c) s"

text \<open>The decimal text of an integer, as a template literal prints it (integers below
  \<open>10^21\<close>).\<close>

fun decimal :: "nat \<Rightarrow> jsstring" where
  "decimal n = (if n < 10 then [0x30 + of_nat n] else decimal (n div 10) @ [0x30 + of_nat (n mod 10)])"

declare decimal.simps [simp del]

definition numToString :: "int \<Rightarrow> jsstring" where
  "numToString i = (if i < 0 then 0x2D # decimal (nat (- i)) else decimal (nat i))"

text \<open>The arithmetic of doubles. \<open>binary64 x\<close> is the double nearest to the exact number
  \<open>x\<close>, ties to the even significand: \<open>x\<close> is scaled by its unit in the last place (53
  significant bits), rounded to an integer and scaled back. The exponent range is taken
  unbounded: overflow to an infinity and the subnormal numbers are not modelled.
  \<open>bitLength\<close> and \<open>ilog2\<close> compute the binary exponent of a positive number.\<close>

fun bitLength :: "nat \<Rightarrow> nat" where
  "bitLength n = (if n = 0 then 0 else Suc (bitLength (n div 2)))"

declare bitLength.simps [simp del]

definition ilog2 :: "rat \<Rightarrow> int" where
  "ilog2 x =
     (let (p, q) = quotient_of x;
          d = int (bitLength (nat p)) - int (bitLength (nat q))
      in if power_int 2 d \<le> x then d else d - 1)"

definition roundHalfEven :: "rat \<Rightarrow> int" where
  "roundHalfEven z =
     (let f = \<lfloor>z\<rfloor>; r = z - of_int f
      in if r < 1 / 2 then f else if 1 / 2 < r then f + 1 else if even f then f else f + 1)"

definition binary64 :: "rat \<Rightarrow> rat" where
  "binary64 x =
     (if x = 0 then 0
      else let ulp = power_int 2 (ilog2 \<bar>x\<bar> - 52)
           in of_int (roundHalfEven (x / ulp)) * ulp)"

text \<open>The relative error of one rounding is at most \<open>2^-53\<close>.\<close>

definition unitRoundoff :: rat where
  "unitRoundoff = 1 / 2 ^ 53"

datatype jsnum = Fin rat | NaN | PosInfinity | NegInfinity

text \<open>The operators \<^verbatim>\<open>/\<close> and \<^verbatim>\<open>*\<close> on doubles: the exact result, rounded.\<close>

definition js_div :: "rat \<Rightarrow> rat \<Rightarrow> jsnum" where
  "js_div a b =
     (if b = 0 then (if a = 0 then NaN else if 0 < a then PosInfinity else NegInfinity)
      else Fin (binary64 (a / b)))"

fun js_times :: "jsnum \<Rightarrow> rat \<Rightarrow> jsnum" where
  "js_times (Fin p) c = Fin (binary64 (p * c))"
| "js_times NaN c = NaN"
| "js_times PosInfinity c = (if c = 0 then NaN else if 0 < c then PosInfinity else NegInfinity)"
| "js_times NegInfinity c = (if c = 0 then NaN else if 0 < c then NegInfinity else PosInfinity)"

fun the_fin :: "jsnum \<Rightarrow> rat" where
  "the_fin (Fin p) = p"
| "the_fin _ = 0"

text \<open>\<^verbatim>\<open>Array.prototype.sort\<close> with a comparator: a stable sort (ECMAScript 2019); an
  element moves behind another only where the comparator is positive.\<close>

fun insort_cmp :: "('a \<Rightarrow> 'a \<Rightarrow> int) \<Rightarrow> 'a \<Rightarrow> 'a list \<Rightarrow> 'a list" where
  "insort_cmp cmp x [] = [x]"
| "insort_cmp cmp x (y # ys) = (if 0 < cmp x y then y # insort_cmp cmp x ys else x # y # ys)"

definition js_sort :: "('a \<Rightarrow> 'a \<Rightarrow> int) \<Rightarrow> 'a list \<Rightarrow> 'a list" where
  "js_sort cmp xs = foldr (insort_cmp cmp) xs []"

text \<open>\<^verbatim>\<open>Array.prototype.findIndex\<close>; \<open>None\<close> stands for \<open>-1\<close>.\<close>

fun findIndex :: "('a \<Rightarrow> bool) \<Rightarrow> 'a list \<Rightarrow> nat option" where
  "findIndex P [] = None"
| "findIndex P (x # xs) = (if P x then Some 0 else map_option Suc (findIndex P xs))"

text \<open>A JavaScript \<^verbatim>\<open>Map\<close>: keys in insertion order; \<^verbatim>\<open>set\<close> on a key already present
  replaces its value and keeps its place.\<close>

type_synonym ('k, 'v) jsmap = "('k \<times> 'v) list"

fun map_set :: "'k \<Rightarrow> 'v \<Rightarrow> ('k, 'v) jsmap \<Rightarrow> ('k, 'v) jsmap" where
  "map_set k v [] = [(k, v)]"
| "map_set k v ((k', v') # m) = (if k' = k then (k, v) # m else (k', v') # map_set k v m)"

definition map_get :: "'k \<Rightarrow> ('k, 'v) jsmap \<Rightarrow> 'v option" where
  "map_get k m = map_of m k"

text \<open>The value under a key is an object; changing a field of it changes the entry of
  the Map in place.\<close>

fun map_modify :: "'k \<Rightarrow> ('v \<Rightarrow> 'v) \<Rightarrow> ('k, 'v) jsmap \<Rightarrow> ('k, 'v) jsmap" where
  "map_modify k f [] = []"
| "map_modify k f ((k', v') # m) = (if k' = k then (k', f v') # m else (k', v') # map_modify k f m)"

subsection \<open>Data model (types/kakeibo.ts)\<close>

record Category =
  c_id :: jsstring
  c_name :: jsstring
  c_color :: jsstring
  c_icon :: "jsstring option"
  c_createdAt :: jsstring

record KakeiboEntry =
  e_id :: jsstring
  e_date :: jsstring
  e_itemName :: jsstring
  e_amount :: int
  e_categoryId :: jsstring
  e_categoryName :: "jsstring option"
  e_note :: "jsstring option"
  e_imageUri :: "jsstring option"
  e_createdAt :: jsstring
  e_updatedAt :: jsstring

record AIEntry =
  a_date :: jsstring
  a_itemName :: jsstring
  a_amount :: int
  a_suggestedCategory :: "jsstring option"

record AIAnalysisResult =
  r_entries :: "AIEntry list"
  r_confidence :: rat
  r_rawText :: "jsstring option"

record BreakdownItem =
  b_categoryId :: jsstring
  b_categoryName :: jsstring
  b_categoryColor :: jsstring
  b_amount :: int
  b_percentage :: jsnum

record MonthlySummary =
  s_year :: int
  s_month :: int
  s_totalAmount :: int
  s_categoryBreakdown :: "BreakdownItem list"
  s_entryCount :: nat
  s_averageDailySpending :: jsnum

text \<open>\<^verbatim>\<open>Partial<KakeiboEntry>\<close> and \<^verbatim>\<open>Partial<Category>\<close>: \<open>None\<close> is a key the object
  does not have. For an optional field, \<open>Some None\<close> is the key present with the value
  \<^verbatim>\<open>undefined\<close>, which the spread copies and \<^verbatim>\<open>JSON.stringify\<close> then drops.\<close>

record EntryUpdates =
  u_id :: "jsstring option"
  u_date :: "jsstring option"
  u_itemName :: "jsstring option"
  u_amount :: "int option"
  u_categoryId :: "jsstring option"
  u_categoryName :: "jsstring option option"
  u_note :: "jsstring option option"
  u_imageUri :: "jsstring option option"
  u_createdAt :: "jsstring option"
  u_updatedAt :: "jsstring option"

record CategoryUpdates =
  cu_id :: "jsstring option"
  cu_name :: "jsstring option"
  cu_color :: "jsstring option"
  cu_icon :: "jsstring option option"
  cu_createdAt :: "jsstring option"

text \<open>The canonical category names: shokuhi (food), nichiyouhin (daily goods), koutsuuhi
  (transport), goraku (entertainment), iryouhi (medical), kyouikuhi (education),
  kounetsuhi (utilities), tsuushinhi (communications), sonota (the catch-all).\<close>

definition shokuhi :: jsstring where "shokuhi = [0x98DF, 0x8CBB]"
definition nichiyouhin :: jsstring where "nichiyouhin = [0x65E5, 0x7528, 0x54C1]"
definition koutsuuhi :: jsstring where "koutsuuhi = [0x4EA4, 0x901A, 0x8CBB]"
definition goraku :: jsstring where "goraku = [0x5A2F, 0x697D]"
definition iryouhi :: jsstring where "iryouhi = [0x533B, 0x7642, 0x8CBB]"
definition kyouikuhi :: jsstring where "kyouikuhi = [0x6559, 0x80B2, 0x8CBB]"
definition kounetsuhi :: jsstring where "kounetsuhi = [0x5149, 0x71B1, 0x8CBB]"
definition tsuushinhi :: jsstring where "tsuushinhi = [0x901A, 0x4FE1, 0x8CBB]"
definition sonota :: jsstring where "sonota = [0x305D, 0x306E, 0x4ED6]"

text \<open>\<^verbatim>\<open>DEFAULT_CATEGORIES\<close>: name, color, icon.\<close>

definition DEFAULT_CATEGORIES :: "(jsstring \<times> jsstring \<times> jsstring) list" where
  "DEFAULT_CATEGORIES =
    [(shokuhi, str ''#FF6B6B'', str ''cart''),
     (nichiyouhin, str ''#4ECDC4'', str ''home''),
     (koutsuuhi, str ''#45B7D1'', str ''car''),
     (goraku, str ''#FFA07A'', str ''game-controller''),
     (iryouhi, str ''#98D8C8'', str ''medical''),
     (kyouikuhi, str ''#F7DC6F'', str ''book''),
     (kounetsuhi, str ''#BB8FCE'', str ''flash''),
     (tsuushinhi, str ''#85C1E2'', str ''phone-portrait''),
     (sonota, str ''#95A5A6'', str ''ellipsis-horizontal'')]"

subsection \<open>The store (lib/storage.ts)\<close>

text \<open>The three keys of the store; \<open>None\<close> is a key never written (\<^verbatim>\<open>getItem\<close> gives
  \<^verbatim>\<open>null\<close>).\<close>

record AsyncStorage =
  ENTRIES :: "KakeiboEntry list option"
  CATEGORIES :: "Category list option"
  LAST_SYNC :: "jsstring option"

datatype error = EntryNotFound | CategoryNotFound | AnalysisError

definition saveEntries :: "KakeiboEntry list \<Rightarrow> AsyncStorage \<Rightarrow> AsyncStorage" where
  "saveEntries entries s = s\<lparr>ENTRIES := Some entries\<rparr>"

definition loadEntries :: "AsyncStorage \<Rightarrow> KakeiboEntry list" where
  "loadEntries s = (case ENTRIES s of Some entries \<Rightarrow> entries | None \<Rightarrow> [])"

definition addEntry :: "KakeiboEntry \<Rightarrow> AsyncStorage \<Rightarrow> AsyncStorage" where
  "addEntry entry s = saveEntries (loadEntries s @ [entry]) s"

text \<open>The spread \<^verbatim>\<open>{...entries[index], ...updates, updatedAt: now}\<close>.\<close>

definition spreadEntry :: "KakeiboEntry \<Rightarrow> EntryUpdates \<Rightarrow> jsstring \<Rightarrow> KakeiboEntry" where
  "spreadEntry e u now =
     \<lparr>e_id = (case u_id u of Some v \<Rightarrow> v | None \<Rightarrow> e_id e),
      e_date = (case u_date u of Some v \<Rightarrow> v | None \<Rightarrow> e_date e),
      e_itemName = (case u_itemName u of Some v \<Rightarrow> v | None \<Rightarrow> e_itemName e),
      e_amount = (case u_amount u of Some v \<Rightarrow> v | None \<Rightarrow> e_amount e),
      e_categoryId = (case u_categoryId u of Some v \<Rightarrow> v | None \<Rightarrow> e_categoryId e),
      e_categoryName = (case u_categoryName u of Some v \<Rightarrow> v | None \<Rightarrow> e_categoryName e),
      e_note = (case u_note u of Some v \<Rightarrow> v | None \<Rightarrow> e_note e),
      e_imageUri = (case u_imageUri u of Some v \<Rightarrow> v | None \<Rightarrow> e_imageUri e),
      e_createdAt = (case u_createdAt u of Some v \<Rightarrow> v | None \<Rightarrow> e_createdAt e),
      e_updatedAt = now\<rparr>"

text \<open>An operation that can throw returns what it threw (\<open>Inl\<close>) or nothing (\<open>Inr ()\<close>),
  and the store as it is left.\<close>

definition updateEntry ::
  "jsstring \<Rightarrow> EntryUpdates \<Rightarrow> jsstring \<Rightarrow> AsyncStorage \<Rightarrow> (error + unit) \<times> AsyncStorage" where
  "updateEntry ident updates now s =
     (let entries = loadEntries s in
      case findIndex (\<lambda>e. e_id e = ident) entries of
        None \<Rightarrow> (Inl EntryNotFound, s)
      | Some index \<Rightarrow>
          (Inr (), saveEntries (entries[index := spreadEntry (entries ! index) updates now]) s))"

definition deleteEntry :: "jsstring \<Rightarrow> AsyncStorage \<Rightarrow> (error + unit) \<times> AsyncStorage" where
  "deleteEntry ident s =
     (let entries = loadEntries s;
          filtered = filter (\<lambda>e. e_id e \<noteq> ident) entries
      in (Inr (), saveEntries filtered s))"

text \<open>\<open>dateOf d\<close> is what \<^verbatim>\<open>new Date(d)\<close> reports in the local time zone: the pair of
  \<^verbatim>\<open>getFullYear()\<close> and \<^verbatim>\<open>getMonth()\<close> (0-based), or \<open>None\<close> for an invalid date, whose
  fields are \<open>NaN\<close> and equal nothing.\<close>

definition getEntriesByMonth ::
  "(jsstring \<Rightarrow> (int \<times> int) option) \<Rightarrow> int \<Rightarrow> int \<Rightarrow> AsyncStorage \<Rightarrow> KakeiboEntry list" where
  "getEntriesByMonth dateOf year month s =
     filter (\<lambda>entry. case dateOf (e_date entry) of
                       Some (y, m) \<Rightarrow> y = year \<and> m + 1 = month
                     | None \<Rightarrow> False)
            (loadEntries s)"

definition saveCategories :: "Category list \<Rightarrow> AsyncStorage \<Rightarrow> AsyncStorage" where
  "saveCategories categories s = s\<lparr>CATEGORIES := Some categories\<rparr>"

text \<open>The default categories of the first read; \<open>clock index\<close> is the reading of
  \<^verbatim>\<open>new Date().toISOString()\<close> for the category at \<open>index\<close>.\<close>

definition defaultCategories :: "(nat \<Rightarrow> jsstring) \<Rightarrow> Category list" where
  "defaultCategories clock =
     map (\<lambda>(index, (name, color, icon)).
            \<lparr>c_id = str ''default_'' @ numToString (int index), c_name = name, c_color = color,
             c_icon = Some icon, c_createdAt = clock index\<rparr>)
         (enumerate 0 DEFAULT_CATEGORIES)"

definition loadCategories :: "(nat \<Rightarrow> jsstring) \<Rightarrow> AsyncStorage \<Rightarrow> Category list \<times> AsyncStorage" where
  "loadCategories clock s =
     (case CATEGORIES s of
        Some categories \<Rightarrow> (categories, s)
      | None \<Rightarrow> (defaultCategories clock, saveCategories (defaultCategories clock) s))"

definition addCategory :: "Category \<Rightarrow> (nat \<Rightarrow> jsstring) \<Rightarrow> AsyncStorage \<Rightarrow> AsyncStorage" where
  "addCategory category clock s =
     (let (categories, s1) = loadCategories clock s
      in saveCategories (categories @ [category]) s1)"

definition spreadCategory :: "Category \<Rightarrow> CategoryUpdates \<Rightarrow> Category" where
  "spreadCategory c u =
     \<lparr>c_id = (case cu_id u of Some v \<Rightarrow> v | None \<Rightarrow> c_id c),
      c_name = (case cu_name u of Some v \<Rightarrow> v | None \<Rightarrow> c_name c),
      c_color = (case cu_color u of Some v \<Rightarrow> v | None \<Rightarrow> c_color c),
      c_icon = (case cu_icon u of Some v \<Rightarrow> v | None \<Rightarrow> c_icon c),
      c_createdAt = (case cu_createdAt u of Some v \<Rightarrow> v | None \<Rightarrow> c_createdAt c)\<rparr>"

definition updateCategory ::
  "jsstring \<Rightarrow> CategoryUpdates \<Rightarrow> (nat \<Rightarrow> jsstring) \<Rightarrow> AsyncStorage \<Rightarrow> (error + unit) \<times> AsyncStorage" where
  "updateCategory ident updates clock s =
     (let (categories, s1) = loadCategories clock s in
      case findIndex (\<lambda>c. c_id c = ident) categories of
        None \<Rightarrow> (Inl CategoryNotFound, s1)
      | Some index \<Rightarrow>
          (Inr (), saveCategories (categories[index := spreadCategory (categories ! index) updates]) s1))"

definition deleteCategory ::
  "jsstring \<Rightarrow> (nat \<Rightarrow> jsstring) \<Rightarrow> AsyncStorage \<Rightarrow> (error + unit) \<times> AsyncStorage" where
  "deleteCategory ident clock s =
     (let (categories, s1) = loadCategories clock s;
          filtered = filter (\<lambda>c. c_id c \<noteq> ident) categories
      in (Inr (), saveCategories filtered s1))"

definition clearAllData :: "AsyncStorage \<Rightarrow> AsyncStorage" where
  "clearAllData s = s\<lparr>ENTRIES := None, CATEGORIES := None, LAST_SYNC := None\<rparr>"

subsection \<open>CSV export (generateCSV)\<close>

text \<open>The header line: hizuke (date), koumokumei (item), kingaku (amount), kategori
  (category), memo (note), separated by commas and ended by a line feed.\<close>

definition csvHeader :: jsstring where
  "csvHeader =
     [0x65E5, 0x4ED8, 0x002C, 0x9805, 0x76EE, 0x540D, 0x002C, 0x91D1, 0x984D, 0x002C,
      0x30AB, 0x30C6, 0x30B4, 0x30EA, 0x002C, 0x30E1, 0x30E2, 0x000A]"

text \<open>\<open>getTime d\<close> is \<^verbatim>\<open>new Date(d).getTime()\<close>, \<open>None\<close> for \<open>NaN\<close>. A comparator result
  of \<open>NaN\<close> is read by the sort as \<open>0\<close>.\<close>

definition byDateDescending :: "(jsstring \<Rightarrow> int option) \<Rightarrow> KakeiboEntry \<Rightarrow> KakeiboEntry \<Rightarrow> int" where
  "byDateDescending getTime a b =
     (case (getTime (e_date b), getTime (e_date a)) of
        (Some tb, Some ta) \<Rightarrow> tb - ta
      | _ \<Rightarrow> 0)"

definition csvRow :: "(jsstring, jsstring) jsmap \<Rightarrow> KakeiboEntry \<Rightarrow> jsstring" where
  "csvRow categoryMap entry =
     (let categoryName = (case map_get (e_categoryId entry) categoryMap of
                            Some n \<Rightarrow> if n = [] then sonota else n
                          | None \<Rightarrow> sonota);
          note = (case e_note entry of Some n \<Rightarrow> n | None \<Rightarrow> [])
      in e_date entry @ [0x2C, 0x22] @ e_itemName entry @ [0x22, 0x2C]
         @ numToString (e_amount entry) @ [0x2C, 0x22] @ categoryName @ [0x22, 0x2C, 0x22]
         @ note @ [0x22, 0x0A])"

definition generateCSV ::
  "(jsstring \<Rightarrow> int option) \<Rightarrow> (nat \<Rightarrow> jsstring) \<Rightarrow> AsyncStorage \<Rightarrow> jsstring \<times> AsyncStorage" where
  "generateCSV getTime clock s =
     (let entries = loadEntries s;
          (categories, s1) = loadCategories clock s;
          categoryMap = foldl (\<lambda>m c. map_set (c_id c) (c_name c) m) [] categories;
          csv = csvHeader
      in (foldl (\<lambda>csv entry. csv @ csvRow categoryMap entry) csv
            (js_sort (byDateDescending getTime) entries), s1))"

subsection \<open>Category normaliser (normalizeCategoryName)\<close>

text \<open>The mapping table, in the order of the object literal (\<^verbatim>\<open>Object.entries\<close> lists
  string keys that are not array indices in insertion order). Each line is one canonical
  name with its keywords.\<close>

definition categoryMap :: "(jsstring \<times> jsstring) list" where
  "categoryMap =
    [([0x98DF, 0x8CBB], shokuhi), ([0x98DF, 0x4E8B], shokuhi), ([0x98DF, 0x6599], shokuhi),
     ([0x98DF, 0x6750], shokuhi), ([0x5916, 0x98DF], shokuhi),
     ([0x65E5, 0x7528, 0x54C1], nichiyouhin), ([0x751F, 0x6D3B, 0x7528, 0x54C1], nichiyouhin),
     ([0x96D1, 0x8CA8], nichiyouhin),
     ([0x4EA4, 0x901A, 0x8CBB], koutsuuhi), ([0x4EA4, 0x901A], koutsuuhi),
     ([0x96FB, 0x8ECA], koutsuuhi), ([0x30D0, 0x30B9], koutsuuhi),
     ([0x30BF, 0x30AF, 0x30B7, 0x30FC], koutsuuhi), ([0x30AC, 0x30BD, 0x30EA, 0x30F3], koutsuuhi),
     ([0x5A2F, 0x697D], goraku), ([0x8DA3, 0x5473], goraku),
     ([0x30EC, 0x30B8, 0x30E3, 0x30FC], goraku), ([0x30A8, 0x30F3, 0x30BF, 0x30E1], goraku),
     ([0x533B, 0x7642, 0x8CBB], iryouhi), ([0x533B, 0x7642], iryouhi),
     ([0x75C5, 0x9662], iryouhi), ([0x85AC], iryouhi),
     ([0x6559, 0x80B2, 0x8CBB], kyouikuhi), ([0x6559, 0x80B2], kyouikuhi),
     ([0x5B66, 0x8CBB], kyouikuhi), ([0x66F8, 0x7C4D], kyouikuhi),
     ([0x5149, 0x71B1, 0x8CBB], kounetsuhi), ([0x96FB, 0x6C17], kounetsuhi),
     ([0x30AC, 0x30B9], kounetsuhi), ([0x6C34, 0x9053], kounetsuhi),
     ([0x901A, 0x4FE1, 0x8CBB], tsuushinhi), ([0x901A, 0x4FE1], tsuushinhi),
     ([0x96FB, 0x8A71], tsuushinhi),
     ([0x30A4, 0x30F3, 0x30BF, 0x30FC, 0x30CD, 0x30C3, 0x30C8], tsuushinhi),
     ([0x305D, 0x306E, 0x4ED6], sonota)]"

text \<open>The loop over the table: the first key that the normalised guess includes returns
  its value; \<open>None\<close> when the loop runs to its end.\<close>

fun firstMatch :: "(jsstring \<Rightarrow> jsstring) \<Rightarrow> jsstring \<Rightarrow> (jsstring \<times> jsstring) list \<Rightarrow> jsstring option" where
  "firstMatch toLowerCase normalized [] = None"
| "firstMatch toLowerCase normalized ((key, val) # rest) =
     (if js_includes normalized (toLowerCase key) then Some val
      else firstMatch toLowerCase normalized rest)"

text \<open>The guess is \<open>None\<close> for \<^verbatim>\<open>undefined\<close>; \<^verbatim>\<open>!suggestedCategory\<close> holds of \<^verbatim>\<open>undefined\<close>
  and of the empty string.\<close>

definition normalizeCategoryName :: "(jsstring \<Rightarrow> jsstring) \<Rightarrow> jsstring option \<Rightarrow> jsstring" where
  "normalizeCategoryName toLowerCase suggestedCategory =
     (case suggestedCategory of
        None \<Rightarrow> sonota
      | Some guess \<Rightarrow>
          if guess = [] then sonota
          else (case firstMatch toLowerCase (trim (toLowerCase guess)) categoryMap of
                  Some val \<Rightarrow> val
                | None \<Rightarrow> sonota))"

subsection \<open>Monthly aggregation (calculateMonthlySummary, getCategoryData)\<close>

record Accumulator =
  m_name :: jsstring
  m_color :: jsstring
  m_amount :: int

definition sumAmounts :: "KakeiboEntry list \<Rightarrow> int" where
  "sumAmounts entries = foldl (\<lambda>sum entry. sum + e_amount entry) 0 entries"

text \<open>The Map of both screens: one zeroed accumulator per category id, then every entry
  added to the accumulator of its \<open>categoryId\<close>, if the Map has one.\<close>

definition initCategoryMap :: "Category list \<Rightarrow> (jsstring, Accumulator) jsmap" where
  "initCategoryMap categories =
     foldl (\<lambda>m cat. map_set (c_id cat) \<lparr>m_name = c_name cat, m_color = c_color cat, m_amount = 0\<rparr> m)
           [] categories"

definition addToCategory :: "(jsstring, Accumulator) jsmap \<Rightarrow> KakeiboEntry \<Rightarrow> (jsstring, Accumulator) jsmap" where
  "addToCategory m entry =
     (case map_get (e_categoryId entry) m of
        Some cat \<Rightarrow> map_modify (e_categoryId entry) (\<lambda>c. c\<lparr>m_amount := m_amount c + e_amount entry\<rparr>) m
      | None \<Rightarrow> m)"

definition accumulate :: "Category list \<Rightarrow> KakeiboEntry list \<Rightarrow> (jsstring, Accumulator) jsmap" where
  "accumulate categories entries = foldl addToCategory (initCategoryMap categories) entries"

text \<open>\<^verbatim>\<open>new Date(year, month, 0).getDate()\<close>: day 0 of the 0-based month \<open>month\<close> is the last
  day of the 1-based month \<open>month\<close>; a year from 0 to 99 is read as 1900 + year and a month
  out of range carries into the year (dates within the range of \<^verbatim>\<open>Date\<close>).\<close>

definition isLeapYear :: "int \<Rightarrow> bool" where
  "isLeapYear y = ((y mod 4 = 0 \<and> y mod 100 \<noteq> 0) \<or> y mod 400 = 0)"

definition daysInMonth :: "int \<Rightarrow> int \<Rightarrow> int" where
  "daysInMonth year month =
     (let yr = (if 0 \<le> year \<and> year \<le> 99 then 1900 + year else year);
          yy = yr + (month - 1) div 12;
          mm = (month - 1) mod 12
      in if mm = 1 then (if isLeapYear yy then 29 else 28)
         else if mm = 3 \<or> mm = 5 \<or> mm = 8 \<or> mm = 10 then 30 else 31)"

text \<open>The rows before \<^verbatim>\<open>.filter\<close> and \<^verbatim>\<open>.sort\<close>: one per key of the Map.\<close>

definition breakdownRows :: "int \<Rightarrow> (jsstring, Accumulator) jsmap \<Rightarrow> BreakdownItem list" where
  "breakdownRows totalAmount m =
     map (\<lambda>(ident, data).
            \<lparr>b_categoryId = ident, b_categoryName = m_name data, b_categoryColor = m_color data,
             b_amount = m_amount data,
             b_percentage = (if 0 < totalAmount
                             then js_times (js_div (of_int (m_amount data)) (of_int totalAmount)) 100
                             else Fin 0)\<rparr>)
         m"

definition calculateMonthlySummary ::
  "KakeiboEntry list \<Rightarrow> Category list \<Rightarrow> int \<Rightarrow> int \<Rightarrow> MonthlySummary" where
  "calculateMonthlySummary entries categories year month =
     (let totalAmount = sumAmounts entries;
          categoryBreakdown =
            js_sort (\<lambda>a b. b_amount b - b_amount a)
              (filter (\<lambda>item. 0 < b_amount item)
                 (breakdownRows totalAmount (accumulate categories entries)));
          averageDailySpending = js_div (of_int totalAmount) (of_int (daysInMonth year month))
      in \<lparr>s_year = year, s_month = month, s_totalAmount = totalAmount,
          s_categoryBreakdown = categoryBreakdown, s_entryCount = length entries,
          s_averageDailySpending = averageDailySpending\<rparr>)"

definition getCategoryData :: "Category list \<Rightarrow> KakeiboEntry list \<Rightarrow> Accumulator list" where
  "getCategoryData categories monthlyEntries =
     js_sort (\<lambda>a b. m_amount b - m_amount a)
       (filter (\<lambda>item. 0 < m_amount item) (map snd (accumulate categories monthlyEntries)))"

subsection \<open>Trend of the last six months (getMonthlyTrendData)\<close>

text \<open>The head of the loop body for the loop variable \<open>i\<close>: the year and month the point
  is for.\<close>

definition trendMonth :: "int \<Rightarrow> int \<Rightarrow> nat \<Rightarrow> int \<times> int" where
  "trendMonth currentYear currentMonth i =
     (let year = currentYear; month = currentMonth - int i
      in if month \<le> 0 then (year - 1, month + 12) else (year, month))"

definition trendPoint ::
  "(jsstring \<Rightarrow> (int \<times> int) option) \<Rightarrow> AsyncStorage \<Rightarrow> int \<Rightarrow> int \<Rightarrow> nat \<Rightarrow> int \<times> jsstring" where
  "trendPoint dateOf s currentYear currentMonth i =
     (let (year, month) = trendMonth currentYear currentMonth i;
          entries = getEntriesByMonth dateOf year month s;
          total = sumAmounts entries
      in (total, numToString month @ [0x6708]))"

text \<open>\<^verbatim>\<open>for (let i = 5; i >= 0; i--)\<close>, pushing one point per round.\<close>

fun trendLoop ::
  "(jsstring \<Rightarrow> (int \<times> int) option) \<Rightarrow> AsyncStorage \<Rightarrow> int \<Rightarrow> int \<Rightarrow> nat \<Rightarrow> (int \<times> jsstring) list" where
  "trendLoop dateOf s currentYear currentMonth 0 = [trendPoint dateOf s currentYear currentMonth 0]"
| "trendLoop dateOf s currentYear currentMonth (Suc i) =
     trendPoint dateOf s currentYear currentMonth (Suc i) # trendLoop dateOf s currentYear currentMonth i"

record TrendData =
  t_data :: "int list"
  t_labels :: "jsstring list"

definition getMonthlyTrendData ::
  "(jsstring \<Rightarrow> (int \<times> int) option) \<Rightarrow> AsyncStorage \<Rightarrow> int \<Rightarrow> int \<Rightarrow> TrendData" where
  "getMonthlyTrendData dateOf s currentYear currentMonth =
     (let points = trendLoop dateOf s currentYear currentMonth 5
      in \<lparr>t_data = map fst points, t_labels = map snd points\<rparr>)"

text \<open>The wording of the specification, for comparison: the month \<open>k\<close> months before the
  1-based month \<open>m\<close> of year \<open>y\<close>, counting months on one line, and the six months that end
  at the reference month, oldest first.\<close>

definition monthsBefore :: "int \<Rightarrow> int \<Rightarrow> nat \<Rightarrow> int \<times> int" where
  "monthsBefore y m k = (let n = 12 * y + (m - 1) - int k in (n div 12, n mod 12 + 1))"

definition trailingSixMonths :: "int \<Rightarrow> int \<Rightarrow> (int \<times> int) list" where
  "trailingSixMonths y m = map (monthsBefore y m) [5, 4, 3, 2, 1, 0]"

subsection \<open>Ingestion (analyzeImage of the scan screen)\<close>

text \<open>What the platform gives in one round of the loop: \<^verbatim>\<open>Date.now()\<close>, the text of
  \<^verbatim>\<open>Math.random().toString(36)\<close>, and the two readings of the clock.\<close>

record Stamp =
  nowMs :: int
  random36 :: jsstring
  createdIso :: jsstring
  updatedIso :: jsstring

datatype outcome = NothingFound | Saved nat | Failed error

definition makeEntry :: "jsstring \<Rightarrow> Stamp \<Rightarrow> AIEntry \<Rightarrow> KakeiboEntry" where
  "makeEntry imageUri st entry =
     (let categoryName = (case a_suggestedCategory entry of
                            Some c \<Rightarrow> if c = [] then sonota else c
                          | None \<Rightarrow> sonota)
      in \<lparr>e_id = str ''entry_'' @ numToString (nowMs st) @ str ''_'' @ take 9 (drop 2 (random36 st)),
          e_date = a_date entry, e_itemName = a_itemName entry, e_amount = a_amount entry,
          e_categoryId = categoryName, e_categoryName = Some categoryName, e_note = None,
          e_imageUri = Some imageUri, e_createdAt = createdIso st, e_updatedAt = updatedIso st\<rparr>)"

text \<open>\<^verbatim>\<open>for (const entry of result.entries)\<close>: \<open>k\<close> counts the rounds.\<close>

fun saveAll :: "jsstring \<Rightarrow> (nat \<Rightarrow> Stamp) \<Rightarrow> nat \<Rightarrow> AIEntry list \<Rightarrow> AsyncStorage \<Rightarrow> AsyncStorage" where
  "saveAll imageUri stamps k [] s = s"
| "saveAll imageUri stamps k (entry # rest) s =
     saveAll imageUri stamps (Suc k) rest (addEntry (makeEntry imageUri (stamps k) entry) s)"

text \<open>\<open>analysis\<close> is what \<^verbatim>\<open>analyzeKakeiboImage\<close> gave: the result, or the error it threw.\<close>

definition analyzeImage ::
  "jsstring \<Rightarrow> error + AIAnalysisResult \<Rightarrow> (nat \<Rightarrow> Stamp) \<Rightarrow> AsyncStorage \<Rightarrow> outcome \<times> AsyncStorage" where
  "analyzeImage imageUri analysis stamps s =
     (case analysis of
        Inl err \<Rightarrow> (Failed err, s)
      | Inr result \<Rightarrow>
          if length (r_entries result) = 0 then (NothingFound, s)
          else (Saved (length (r_entries result)), saveAll imageUri stamps 0 (r_entries result) s))"

subsection \<open>Sample data for the concrete evaluations\<close>

definition sampleEntry :: "string \<Rightarrow> int \<Rightarrow> jsstring \<Rightarrow> KakeiboEntry" where
  "sampleEntry ident amount categoryId =
     \<lparr>e_id = str ident, e_date = str ''2026-01-04'', e_itemName = str ''item'', e_amount = amount,
      e_categoryId = categoryId, e_categoryName = None, e_note = None, e_imageUri = None,
      e_createdAt = str ''2026-01-04T00:00:00.000Z'', e_updatedAt = str ''2026-01-04T00:00:00.000Z''\<rparr>"

definition sampleCategory :: "string \<Rightarrow> jsstring \<Rightarrow> Category" where
  "sampleCategory ident name =
     \<lparr>c_id = str ident, c_name = name, c_color = str ''#95A5A6'', c_icon = None,
      c_createdAt = str ''2026-01-01T00:00:00.000Z''\<rparr>"

definition sampleStore :: "KakeiboEntry list \<Rightarrow> Category list \<Rightarrow> AsyncStorage" where
  "sampleStore entries categories = \<lparr>ENTRIES = Some entries, CATEGORIES = Some categories, LAST_SYNC = None\<rparr>"

definition noUpdates :: EntryUpdates where
  "noUpdates = \<lparr>u_id = None, u_date = None, u_itemName = None, u_amount = None, u_categoryId = None,
     u_categoryName = None, u_note = None, u_imageUri = None, u_createdAt = None, u_updatedAt = None\<rparr>"

definition noCategoryUpdates :: CategoryUpdates where
  "noCategoryUpdates = \<lparr>cu_id = None, cu_name = None, cu_color = None, cu_icon = None, cu_createdAt = None\<rparr>"

text \<open>A reading of two date strings, for the evaluations of the trend.\<close>

definition sampleDateOf :: "jsstring \<Rightarrow> (int \<times> int) option" where
  "sampleDateOf d =
     (if d = str ''2026-01-04'' then Some (2026, 0)
      else if d = str ''2025-08-15'' then Some (2025, 7)
      else None)"

text \<open>Readings of the platform and an analysis result of one item, for the evaluation
  of the ingestion.\<close>

definition sampleStamps :: "nat \<Rightarrow> Stamp" where
  "sampleStamps k = \<lparr>nowMs = 1767484800000 + int k, random36 = str ''0.k3j9x2m4pq7'',
     createdIso = str ''2026-01-04T00:00:00.000Z'', updatedIso = str ''2026-01-04T00:00:00.000Z''\<rparr>"

definition sampleAnalysis :: "jsstring \<Rightarrow> AIAnalysisResult" where
  "sampleAnalysis guess =
     \<lparr>r_entries = [\<lparr>a_date = str ''2026-01-04'', a_itemName = str ''lunch'', a_amount = 1200,
                     a_suggestedCategory = Some guess\<rparr>],
      r_confidence = 9 / 10, r_rawText = None\<rparr>"

section \<open>Properties\<close>

subsection \<open>Category normaliser\<close>

text \<open>\<open>js_includes\<close> is the substring test.\<close>

lemma js_includes_iff: "js_includes s k \<longleftrightarrow> (\<exists>ps ss. s = ps @ k @ ss)"
proof (induction s)
  case Nil
  then show ?case by auto
next
  case (Cons x xs)
  show ?case
  proof
    assume "js_includes (x # xs) k"
    then consider "prefix k (x # xs)" | "js_includes xs k" by auto
    then show "\<exists>ps ss. x # xs = ps @ k @ ss"
    proof cases
      case 1
      then obtain ss where "x # xs = k @ ss" by (auto simp: prefix_def)
      then have "x # xs = [] @ k @ ss" by simp
      then show ?thesis by blast
    next
      case 2
      with Cons.IH obtain ps ss where "xs = ps @ k @ ss" by blast
      then have "x # xs = (x # ps) @ k @ ss" by simp
      then show ?thesis by blast
    qed
  next
    assume "\<exists>ps ss. x # xs = ps @ k @ ss"
    then obtain ps ss where e: "x # xs = ps @ k @ ss" by blast
    show "js_includes (x # xs) k"
    proof (cases ps)
      case Nil
      with e have "prefix k (x # xs)" by (simp add: prefix_def)
      then show ?thesis by simp
    next
      case (Cons p ps')
      with e have "xs = ps' @ k @ ss" by simp
      with Cons.IH have "js_includes xs k" by blast
      then show ?thesis by simp
    qed
  qed
qed

lemma firstMatch_earliest:
  "i < length tbl \<Longrightarrow> js_includes n (lc (fst (tbl ! i))) \<Longrightarrow>
   list_all (\<lambda>(key, val). \<not> js_includes n (lc key)) (take i tbl) \<Longrightarrow>
   firstMatch lc n tbl = Some (snd (tbl ! i))"
proof (induction tbl arbitrary: i)
  case Nil
  then show ?case by simp
next
  case (Cons kv tbl)
  obtain key val where kv: "kv = (key, val)" by (cases kv)
  show ?case
  proof (cases i)
    case 0
    with Cons.prems kv show ?thesis by simp
  next
    case (Suc j)
    with Cons.prems kv have "\<not> js_includes n (lc key)" by simp
    moreover from Suc Cons.prems have "firstMatch lc n tbl = Some (snd (tbl ! j))"
      by (intro Cons.IH) simp_all
    ultimately show ?thesis using kv Suc by simp
  qed
qed

lemma firstMatch_none:
  "list_all (\<lambda>(key, val). \<not> js_includes n (lc key)) tbl \<Longrightarrow> firstMatch lc n tbl = None"
  by (induction tbl) auto

text \<open>
  Claim C6. The normaliser resolves by table order. Whatever the lower-casing function:
  for a non-empty guess, if the entry at position \<open>i\<close> of the table has its (lower-cased)
  keyword in the lower-cased, trimmed guess and no entry before \<open>i\<close> has, the result is the
  canonical name of entry \<open>i\<close>, however many later entries match as well; an absent guess,
  an empty guess and a guess that no keyword matches give the catch-all name sonota.
\<close>

theorem normalize_resolves_by_table_order:
  "(guess \<noteq> [] \<and> i < length categoryMap
      \<and> js_includes (trim (lc guess)) (lc (fst (categoryMap ! i)))
      \<and> list_all (\<lambda>(key, val). \<not> js_includes (trim (lc guess)) (lc key)) (take i categoryMap)
     \<longrightarrow> normalizeCategoryName lc (Some guess) = snd (categoryMap ! i))
   \<and> normalizeCategoryName lc None = sonota
   \<and> normalizeCategoryName lc (Some []) = sonota
   \<and> (list_all (\<lambda>(key, val). \<not> js_includes (trim (lc guess)) (lc key)) categoryMap
     \<longrightarrow> normalizeCategoryName lc (Some guess) = sonota)"
  by (auto simp: normalizeCategoryName_def firstMatch_earliest firstMatch_none)

text \<open>Witness: the guess gasu-dai to gaishoku holds the keyword gasu (position 28,
  utilities) and the keyword gaishoku (position 4, food); the result is food. The guess
  \<^verbatim>\<open>Misc\<close> matches nothing.\<close>

theorem normalize_resolves_by_table_order_witness:
  "js_includes (trim (asciiLower [0x30AC, 0x30B9, 0x4EE3, 0x3068, 0x5916, 0x98DF])) (asciiLower (fst (categoryMap ! 4)))
   \<and> js_includes (trim (asciiLower [0x30AC, 0x30B9, 0x4EE3, 0x3068, 0x5916, 0x98DF])) (asciiLower (fst (categoryMap ! 28)))
   \<and> snd (categoryMap ! 28) = kounetsuhi
   \<and> normalizeCategoryName asciiLower (Some [0x30AC, 0x30B9, 0x4EE3, 0x3068, 0x5916, 0x98DF]) = shokuhi
   \<and> normalizeCategoryName asciiLower (Some (str ''Misc'')) = sonota"
  using normalize_resolves_by_table_order [of "[0x30AC, 0x30B9, 0x4EE3, 0x3068, 0x5916, 0x98DF]" 4 asciiLower]
    normalize_resolves_by_table_order [of "str ''Misc''" 0 asciiLower]
  by (simp add: categoryMap_def asciiLower_def trim_def isWhiteSpace_def str_def)

subsection \<open>The store: missing identifiers\<close>

lemma findIndex_None: "findIndex P xs = None \<longleftrightarrow> (\<forall>x \<in> set xs. \<not> P x)"
  by (induction xs) auto

lemma findIndex_Some: "findIndex P xs = Some i \<Longrightarrow> i < length xs \<and> P (xs ! i)"
  by (induction xs arbitrary: i) (auto split: if_splits)

lemma filter_other_ids: "ident \<notin> f ` set xs \<Longrightarrow> filter (\<lambda>x. f x \<noteq> ident) xs = xs"
  by (induction xs) auto

lemma loadEntries_saveEntries: "loadEntries (saveEntries es s) = es"
  by (simp add: loadEntries_def saveEntries_def)

lemma loadCategories_saveCategories: "fst (loadCategories clock (saveCategories cs s)) = cs"
  by (simp add: loadCategories_def saveCategories_def)

lemma loadCategories_again:
  "fst (loadCategories clock' (snd (loadCategories clock s))) = fst (loadCategories clock s)"
  by (simp add: loadCategories_def saveCategories_def split: option.splits)

text \<open>
  Claim C4, as the code has it. For an identifier that no element of the collection
  carries: \<open>updateEntry\<close> and \<open>updateCategory\<close> throw the not-found error and leave the
  collection as it was; \<open>deleteEntry\<close> and \<open>deleteCategory\<close> throw nothing, and the
  collection they write back is the one they read.
\<close>

theorem missing_id_update_throws_delete_does_not:
  "(ident \<notin> e_id ` set (loadEntries s) \<longrightarrow>
      updateEntry ident updates now s = (Inl EntryNotFound, s)
      \<and> fst (deleteEntry ident s) = Inr ()
      \<and> loadEntries (snd (deleteEntry ident s)) = loadEntries s)
   \<and> (ident \<notin> c_id ` set (fst (loadCategories clock s)) \<longrightarrow>
      fst (updateCategory ident cupdates clock s) = Inl CategoryNotFound
      \<and> fst (loadCategories clock' (snd (updateCategory ident cupdates clock s))) = fst (loadCategories clock s)
      \<and> fst (deleteCategory ident clock s) = Inr ()
      \<and> fst (loadCategories clock' (snd (deleteCategory ident clock s))) = fst (loadCategories clock s))"
proof (intro conjI impI)
  assume a: "ident \<notin> e_id ` set (loadEntries s)"
  then have "findIndex (\<lambda>e. e_id e = ident) (loadEntries s) = None"
    by (auto simp: findIndex_None)
  then show "updateEntry ident updates now s = (Inl EntryNotFound, s)"
    by (simp add: updateEntry_def)
  show "fst (deleteEntry ident s) = Inr ()"
    by (simp add: deleteEntry_def)
  from a show "loadEntries (snd (deleteEntry ident s)) = loadEntries s"
    by (simp add: deleteEntry_def loadEntries_saveEntries filter_other_ids)
next
  assume a: "ident \<notin> c_id ` set (fst (loadCategories clock s))"
  obtain cs s1 where l: "loadCategories clock s = (cs, s1)" by (cases "loadCategories clock s")
  with a have n: "findIndex (\<lambda>c. c_id c = ident) cs = None"
    by (auto simp: findIndex_None)
  from l have s1: "fst (loadCategories clock' s1) = cs"
    using loadCategories_again [of clock' clock s] by simp
  from l n show "fst (updateCategory ident cupdates clock s) = Inl CategoryNotFound"
    by (simp add: updateCategory_def)
  from l n s1 show "fst (loadCategories clock' (snd (updateCategory ident cupdates clock s))) = fst (loadCategories clock s)"
    by (simp add: updateCategory_def)
  from l show "fst (deleteCategory ident clock s) = Inr ()"
    by (simp add: deleteCategory_def)
  from l a show "fst (loadCategories clock' (snd (deleteCategory ident clock s))) = fst (loadCategories clock s)"
    by (simp add: deleteCategory_def loadCategories_saveCategories filter_other_ids)
qed

text \<open>Witness: a store with the entry \<^verbatim>\<open>a\<close> and the category \<^verbatim>\<open>c\<close>, and the identifier
  \<^verbatim>\<open>b\<close>.\<close>

theorem missing_id_update_throws_delete_does_not_witness:
  "str ''b'' \<notin> e_id ` set (loadEntries (sampleStore [sampleEntry ''a'' 100 (str ''c'')] [sampleCategory ''c'' shokuhi]))
   \<and> str ''b'' \<notin> c_id ` set (fst (loadCategories (\<lambda>k. []) (sampleStore [sampleEntry ''a'' 100 (str ''c'')] [sampleCategory ''c'' shokuhi])))
   \<and> updateEntry (str ''b'') noUpdates (str ''now'') (sampleStore [sampleEntry ''a'' 100 (str ''c'')] [sampleCategory ''c'' shokuhi])
      = (Inl EntryNotFound, sampleStore [sampleEntry ''a'' 100 (str ''c'')] [sampleCategory ''c'' shokuhi])
   \<and> fst (updateCategory (str ''b'') noCategoryUpdates (\<lambda>k. []) (sampleStore [sampleEntry ''a'' 100 (str ''c'')] [sampleCategory ''c'' shokuhi]))
      = Inl CategoryNotFound
   \<and> loadEntries (snd (deleteEntry (str ''b'') (sampleStore [sampleEntry ''a'' 100 (str ''c'')] [sampleCategory ''c'' shokuhi])))
      = [sampleEntry ''a'' 100 (str ''c'')]"
  using missing_id_update_throws_delete_does_not
    [of "str ''b''" "sampleStore [sampleEntry ''a'' 100 (str ''c'')] [sampleCategory ''c'' shokuhi]"
        noUpdates "str ''now''" "\<lambda>k. []" noCategoryUpdates "\<lambda>k. []"]
  by (simp add: sampleStore_def sampleEntry_def sampleCategory_def loadEntries_def loadCategories_def str_def)

text \<open>Counterexample to the claim as stated: deleting the missing identifier \<^verbatim>\<open>b\<close>
  returns normally, for entries and for categories.\<close>

theorem delete_missing_id_counterexample:
  "str ''b'' \<notin> e_id ` set (loadEntries (sampleStore [sampleEntry ''a'' 100 (str ''c'')] [sampleCategory ''c'' shokuhi]))
   \<and> fst (deleteEntry (str ''b'') (sampleStore [sampleEntry ''a'' 100 (str ''c'')] [sampleCategory ''c'' shokuhi])) = Inr ()
   \<and> str ''b'' \<notin> c_id ` set (fst (loadCategories (\<lambda>k. []) (sampleStore [sampleEntry ''a'' 100 (str ''c'')] [sampleCategory ''c'' shokuhi])))
   \<and> fst (deleteCategory (str ''b'') (\<lambda>k. []) (sampleStore [sampleEntry ''a'' 100 (str ''c'')] [sampleCategory ''c'' shokuhi])) = Inr ()"
  by (simp add: sampleStore_def sampleEntry_def sampleCategory_def loadEntries_def loadCategories_def
      deleteEntry_def deleteCategory_def str_def)

subsection \<open>The store: uniqueness of identifiers\<close>

lemma distinct_map_update:
  assumes "distinct (map f xs)" and "i < length xs" and "f y = f (xs ! i) \<or> f y \<notin> f ` set xs"
  shows "distinct (map f (xs[i := y]))"
proof -
  have "f y \<notin> set (map f xs) - {map f xs ! i}"
    using assms(2,3) by auto
  with assms(1) have "distinct ((map f xs)[i := f y])"
    by (rule distinct_list_update)
  then show ?thesis by (simp add: map_update)
qed

lemma e_id_spreadEntry: "e_id (spreadEntry e u now) = (case u_id u of Some v \<Rightarrow> v | None \<Rightarrow> e_id e)"
  by (simp add: spreadEntry_def)

lemma c_id_spreadCategory: "c_id (spreadCategory c u) = (case cu_id u of Some v \<Rightarrow> v | None \<Rightarrow> c_id c)"
  by (simp add: spreadCategory_def)

lemma updateEntry_distinct:
  assumes d: "distinct (map e_id (loadEntries s))"
    and u: "case u_id updates of None \<Rightarrow> True | Some new \<Rightarrow> new = ident \<or> new \<notin> e_id ` set (loadEntries s)"
  shows "distinct (map e_id (loadEntries (snd (updateEntry ident updates now s))))"
proof (cases "findIndex (\<lambda>e. e_id e = ident) (loadEntries s)")
  case None
  with d show ?thesis by (simp add: updateEntry_def)
next
  case (Some i)
  then have i: "i < length (loadEntries s)" "e_id (loadEntries s ! i) = ident"
    using findIndex_Some [of "\<lambda>e. e_id e = ident" "loadEntries s" i] by simp_all
  have "e_id (spreadEntry (loadEntries s ! i) updates now) = e_id (loadEntries s ! i)
        \<or> e_id (spreadEntry (loadEntries s ! i) updates now) \<notin> e_id ` set (loadEntries s)"
    using u i(2) by (auto simp: e_id_spreadEntry split: option.splits)
  with d i(1) have "distinct (map e_id ((loadEntries s)[i := spreadEntry (loadEntries s ! i) updates now]))"
    by (intro distinct_map_update)
  with Some show ?thesis by (simp add: updateEntry_def loadEntries_saveEntries Let_def)
qed

lemma updateCategory_distinct:
  assumes d: "distinct (map c_id (fst (loadCategories clock s)))"
    and u: "case cu_id cupdates of None \<Rightarrow> True
            | Some new \<Rightarrow> new = ident \<or> new \<notin> c_id ` set (fst (loadCategories clock s))"
  shows "distinct (map c_id (fst (loadCategories clock' (snd (updateCategory ident cupdates clock s)))))"
proof -
  obtain cs s1 where l: "loadCategories clock s = (cs, s1)" by (cases "loadCategories clock s")
  from l have s1: "fst (loadCategories clock' s1) = cs"
    using loadCategories_again [of clock' clock s] by simp
  show ?thesis
  proof (cases "findIndex (\<lambda>c. c_id c = ident) cs")
    case None
    with d l s1 show ?thesis by (simp add: updateCategory_def)
  next
    case (Some i)
    then have i: "i < length cs" "c_id (cs ! i) = ident"
      using findIndex_Some [of "\<lambda>c. c_id c = ident" cs i] by simp_all
    have "c_id (spreadCategory (cs ! i) cupdates) = c_id (cs ! i)
          \<or> c_id (spreadCategory (cs ! i) cupdates) \<notin> c_id ` set cs"
      using u i(2) l by (auto simp: c_id_spreadCategory split: option.splits)
    moreover from d l have "distinct (map c_id cs)" by simp
    ultimately have "distinct (map c_id (cs[i := spreadCategory (cs ! i) cupdates]))"
      using i(1) by (intro distinct_map_update)
    with Some l show ?thesis by (simp add: updateCategory_def loadCategories_saveCategories)
  qed
qed

text \<open>
  Claim C5, as the code has it. Over a collection whose identifiers are pairwise distinct:
  \<open>deleteEntry\<close> and \<open>deleteCategory\<close> leave them distinct; \<open>addEntry\<close> and \<open>addCategory\<close>
  leave them distinct when the identifier of the added record is not in the collection
  (the store does not check it); \<open>updateEntry\<close> and \<open>updateCategory\<close> leave them distinct
  when the updates carry no \<open>id\<close>, or the \<open>id\<close> of the updated record, or one that is not in
  the collection.
\<close>

theorem store_operations_keep_ids_distinct:
  "(distinct (map e_id (loadEntries s)) \<longrightarrow>
      distinct (map e_id (loadEntries (snd (deleteEntry ident s))))
      \<and> (e_id entry \<notin> e_id ` set (loadEntries s) \<longrightarrow>
           distinct (map e_id (loadEntries (addEntry entry s))))
      \<and> ((case u_id updates of None \<Rightarrow> True
           | Some new \<Rightarrow> new = ident \<or> new \<notin> e_id ` set (loadEntries s)) \<longrightarrow>
           distinct (map e_id (loadEntries (snd (updateEntry ident updates now s))))))
   \<and> (distinct (map c_id (fst (loadCategories clock s))) \<longrightarrow>
      distinct (map c_id (fst (loadCategories clock' (snd (deleteCategory ident clock s)))))
      \<and> (c_id category \<notin> c_id ` set (fst (loadCategories clock s)) \<longrightarrow>
           distinct (map c_id (fst (loadCategories clock' (addCategory category clock s)))))
      \<and> ((case cu_id cupdates of None \<Rightarrow> True
           | Some new \<Rightarrow> new = ident \<or> new \<notin> c_id ` set (fst (loadCategories clock s))) \<longrightarrow>
           distinct (map c_id (fst (loadCategories clock' (snd (updateCategory ident cupdates clock s)))))))"
proof (intro conjI impI)
  assume d: "distinct (map e_id (loadEntries s))"
  then show "distinct (map e_id (loadEntries (snd (deleteEntry ident s))))"
    by (simp add: deleteEntry_def loadEntries_saveEntries distinct_map_filter)
  {
    assume "e_id entry \<notin> e_id ` set (loadEntries s)"
    with d show "distinct (map e_id (loadEntries (addEntry entry s)))"
      by (simp add: addEntry_def loadEntries_saveEntries)
  }
  {
    assume "case u_id updates of None \<Rightarrow> True
            | Some new \<Rightarrow> new = ident \<or> new \<notin> e_id ` set (loadEntries s)"
    with d show "distinct (map e_id (loadEntries (snd (updateEntry ident updates now s))))"
      by (rule updateEntry_distinct)
  }
next
  assume d: "distinct (map c_id (fst (loadCategories clock s)))"
  obtain cs s1 where l: "loadCategories clock s = (cs, s1)" by (cases "loadCategories clock s")
  from d l show "distinct (map c_id (fst (loadCategories clock' (snd (deleteCategory ident clock s)))))"
    by (simp add: deleteCategory_def loadCategories_saveCategories distinct_map_filter)
  {
    assume "c_id category \<notin> c_id ` set (fst (loadCategories clock s))"
    with d l show "distinct (map c_id (fst (loadCategories clock' (addCategory category clock s))))"
      by (simp add: addCategory_def loadCategories_saveCategories)
  }
  {
    assume "case cu_id cupdates of None \<Rightarrow> True
            | Some new \<Rightarrow> new = ident \<or> new \<notin> c_id ` set (fst (loadCategories clock s))"
    with d show "distinct (map c_id (fst (loadCategories clock' (snd (updateCategory ident cupdates clock s)))))"
      by (rule updateCategory_distinct)
  }
qed

text \<open>Witness: the store with the entry \<^verbatim>\<open>a\<close> and the category \<^verbatim>\<open>c\<close>; the entry \<^verbatim>\<open>b\<close> and
  the category \<^verbatim>\<open>d\<close> are added, \<^verbatim>\<open>a\<close> and \<^verbatim>\<open>c\<close> are updated without a new \<open>id\<close>.\<close>

theorem store_operations_keep_ids_distinct_witness:
  "distinct (map e_id (loadEntries (sampleStore [sampleEntry ''a'' 100 (str ''c'')] [sampleCategory ''c'' shokuhi])))
   \<and> map e_id (loadEntries (addEntry (sampleEntry ''b'' 5 (str ''c'')) (sampleStore [sampleEntry ''a'' 100 (str ''c'')] [sampleCategory ''c'' shokuhi])))
       = [str ''a'', str ''b'']
   \<and> distinct (map e_id (loadEntries (addEntry (sampleEntry ''b'' 5 (str ''c'')) (sampleStore [sampleEntry ''a'' 100 (str ''c'')] [sampleCategory ''c'' shokuhi]))))
   \<and> distinct (map e_id (loadEntries (snd (updateEntry (str ''a'') noUpdates (str ''now'') (sampleStore [sampleEntry ''a'' 100 (str ''c'')] [sampleCategory ''c'' shokuhi])))))
   \<and> distinct (map c_id (fst (loadCategories (\<lambda>k. []) (addCategory (sampleCategory ''d'' sonota) (\<lambda>k. []) (sampleStore [sampleEntry ''a'' 100 (str ''c'')] [sampleCategory ''c'' shokuhi])))))
   \<and> distinct (map c_id (fst (loadCategories (\<lambda>k. []) (snd (updateCategory (str ''c'') noCategoryUpdates (\<lambda>k. []) (sampleStore [sampleEntry ''a'' 100 (str ''c'')] [sampleCategory ''c'' shokuhi]))))))"
  using store_operations_keep_ids_distinct
    [where s = "sampleStore [sampleEntry ''a'' 100 (str ''c'')] [sampleCategory ''c'' shokuhi]"
       and ident = "str ''a''" and entry = "sampleEntry ''b'' 5 (str ''c'')" and updates = noUpdates
       and now = "str ''now''" and clock = "\<lambda>k. []" and clock' = "\<lambda>k. []"
       and category = "sampleCategory ''d'' sonota" and cupdates = noCategoryUpdates]
  by (simp add: sampleStore_def sampleEntry_def sampleCategory_def noUpdates_def noCategoryUpdates_def
      loadEntries_def loadCategories_def addEntry_def saveEntries_def saveCategories_def addCategory_def
      updateEntry_def updateCategory_def deleteEntry_def deleteCategory_def spreadEntry_def
      spreadCategory_def Let_def str_def)

text \<open>Counterexample to the claim as stated: \<open>addEntry\<close> of a second entry with the
  identifier \<^verbatim>\<open>a\<close>.\<close>

theorem addEntry_duplicate_id_counterexample:
  "distinct (map e_id (loadEntries (sampleStore [sampleEntry ''a'' 100 (str ''c'')] [])))
   \<and> \<not> distinct (map e_id (loadEntries (addEntry (sampleEntry ''a'' 5 (str ''c'')) (sampleStore [sampleEntry ''a'' 100 (str ''c'')] []))))"
  by (simp add: sampleStore_def sampleEntry_def loadEntries_def addEntry_def saveEntries_def)

subsection \<open>CSV export\<close>

lemma js_sort_Nil: "js_sort cmp [] = []"
  by (simp add: js_sort_def)

text \<open>
  Claim C9. When the store has no entries, \<open>generateCSV\<close> returns the header line and
  nothing else: the five column names separated by four commas, ended by the one line
  feed of the text.
\<close>

theorem csv_of_no_entries_is_header:
  "loadEntries s = [] \<longrightarrow>
     fst (generateCSV getTime clock s) = csvHeader
     \<and> length (filter (\<lambda>c. c = 0x0A) (fst (generateCSV getTime clock s))) = 1
     \<and> length (filter (\<lambda>c. c = 0x2C) (fst (generateCSV getTime clock s))) = 4"
proof
  assume "loadEntries s = []"
  then have "fst (generateCSV getTime clock s) = csvHeader"
    by (simp add: generateCSV_def js_sort_Nil split: prod.splits)
  then show "fst (generateCSV getTime clock s) = csvHeader
     \<and> length (filter (\<lambda>c. c = 0x0A) (fst (generateCSV getTime clock s))) = 1
     \<and> length (filter (\<lambda>c. c = 0x2C) (fst (generateCSV getTime clock s))) = 4"
    by (simp add: csvHeader_def)
qed

text \<open>Witness: a store whose entries are the empty list, and a store never written.\<close>

theorem csv_of_no_entries_is_header_witness:
  "loadEntries (sampleStore [] [sampleCategory ''c'' shokuhi]) = []
   \<and> fst (generateCSV (\<lambda>d. None) (\<lambda>k. []) (sampleStore [] [sampleCategory ''c'' shokuhi])) = csvHeader
   \<and> fst (generateCSV (\<lambda>d. None) (\<lambda>k. []) \<lparr>ENTRIES = None, CATEGORIES = None, LAST_SYNC = None\<rparr>) = csvHeader"
  using csv_of_no_entries_is_header [of "sampleStore [] [sampleCategory ''c'' shokuhi]" "\<lambda>d. None" "\<lambda>k. []"]
    csv_of_no_entries_is_header [of "\<lparr>ENTRIES = None, CATEGORIES = None, LAST_SYNC = None\<rparr>" "\<lambda>d. None" "\<lambda>k. []"]
  by (simp add: sampleStore_def loadEntries_def)

subsection \<open>Trend\<close>

lemma trendMonth_monthsBefore:
  assumes "1 \<le> m" and "m \<le> 12" and "i \<le> 11"
  shows "trendMonth y m i = monthsBefore y m i"
proof (cases "m - int i \<le> 0")
  case True
  define r where "r = m - int i + 11"
  have e: "12 * y + (m - 1) - int i = 12 * (y - 1) + r"
    by (simp add: r_def)
  have r: "0 \<le> r" "r < 12"
    using assms True by (simp_all add: r_def)
  have "(12 * y + (m - 1) - int i) div 12 = y - 1"
    using e r by (rule int_div_pos_eq)
  moreover have "(12 * y + (m - 1) - int i) mod 12 = r"
    using e r by (rule int_mod_pos_eq)
  ultimately show ?thesis
    using True by (simp add: trendMonth_def monthsBefore_def Let_def r_def)
next
  case False
  define r where "r = m - int i - 1"
  have e: "12 * y + (m - 1) - int i = 12 * y + r"
    by (simp add: r_def)
  have r: "0 \<le> r" "r < 12"
    using assms False by (simp_all add: r_def)
  have "(12 * y + (m - 1) - int i) div 12 = y"
    using e r by (rule int_div_pos_eq)
  moreover have "(12 * y + (m - 1) - int i) mod 12 = r"
    using e r by (rule int_mod_pos_eq)
  ultimately show ?thesis
    using False by (simp add: trendMonth_def monthsBefore_def Let_def r_def)
qed

lemma trendLoop_5:
  "trendLoop dateOf s y m 5 = map (trendPoint dateOf s y m) [5, 4, 3, 2, 1, 0]"
proof -
  have n: "(5::nat) = Suc 4" "(4::nat) = Suc 3" "(3::nat) = Suc 2" "(2::nat) = Suc 1" "(1::nat) = Suc 0"
    by simp_all
  have "trendLoop dateOf s y m (Suc (Suc (Suc (Suc (Suc 0))))) =
      map (trendPoint dateOf s y m) [Suc (Suc (Suc (Suc (Suc 0)))), Suc (Suc (Suc (Suc 0))), Suc (Suc (Suc 0)), Suc (Suc 0), Suc 0, 0]"
    by (simp only: trendLoop.simps list.map)
  moreover have "Suc (Suc (Suc (Suc (Suc 0)))) = 5" "Suc (Suc (Suc (Suc 0))) = 4" "Suc (Suc (Suc 0)) = 3"
    "Suc (Suc 0) = 2" "Suc 0 = 1"
    by simp_all
  ultimately show ?thesis by (simp only:)
qed

lemma trendPoint_monthsBefore:
  assumes "1 \<le> m" and "m \<le> 12" and "i \<le> 11"
  shows "trendPoint dateOf s y m i =
    (sumAmounts (getEntriesByMonth dateOf (fst (monthsBefore y m i)) (snd (monthsBefore y m i)) s),
     numToString (snd (monthsBefore y m i)) @ [0x6708])"
  using trendMonth_monthsBefore [OF assms, of y]
  by (simp add: trendPoint_def Let_def case_prod_beta)

text \<open>
  Claim C7. For every reference year and every reference month from 1 to 12, the trend
  has exactly six points (and six labels), oldest first: the point at position \<open>j\<close> is the
  sum of the amounts of the entries of the month \<open>5 - j\<close> months before the reference month,
  months counted across the year boundary, and the last point is the reference month's.
\<close>

theorem trend_is_six_trailing_months:
  "1 \<le> m \<and> m \<le> 12 \<longrightarrow>
     t_data (getMonthlyTrendData dateOf s y m)
       = map (\<lambda>(yy, mm). sumAmounts (getEntriesByMonth dateOf yy mm s)) (trailingSixMonths y m)
     \<and> t_labels (getMonthlyTrendData dateOf s y m)
       = map (\<lambda>(yy, mm). numToString mm @ [0x6708]) (trailingSixMonths y m)
     \<and> length (t_data (getMonthlyTrendData dateOf s y m)) = 6
     \<and> length (t_labels (getMonthlyTrendData dateOf s y m)) = 6"
proof
  assume m: "1 \<le> m \<and> m \<le> 12"
  have p: "trendPoint dateOf s y m i =
      (sumAmounts (getEntriesByMonth dateOf (fst (monthsBefore y m i)) (snd (monthsBefore y m i)) s),
       numToString (snd (monthsBefore y m i)) @ [0x6708])"
    if "i \<le> 11" for i
    using m that by (intro trendPoint_monthsBefore) simp_all
  have q: "map (trendPoint dateOf s y m) [5, 4, 3, 2, 1, 0] =
      map (\<lambda>(yy, mm). (sumAmounts (getEntriesByMonth dateOf yy mm s), numToString mm @ [0x6708]))
          (trailingSixMonths y m)"
    unfolding trailingSixMonths_def list.map
    using p [of 5] p [of 4] p [of 3] p [of 2] p [of 1] p [of 0]
    by (simp only: case_prod_beta)
  have d: "t_data (getMonthlyTrendData dateOf s y m)
       = map (\<lambda>(yy, mm). sumAmounts (getEntriesByMonth dateOf yy mm s)) (trailingSixMonths y m)"
    unfolding getMonthlyTrendData_def trendLoop_5 q
    by (simp add: case_prod_beta)
  have l: "t_labels (getMonthlyTrendData dateOf s y m)
       = map (\<lambda>(yy, mm). numToString mm @ [0x6708]) (trailingSixMonths y m)"
    unfolding getMonthlyTrendData_def trendLoop_5 q
    by (simp add: case_prod_beta)
  show "t_data (getMonthlyTrendData dateOf s y m)
       = map (\<lambda>(yy, mm). sumAmounts (getEntriesByMonth dateOf yy mm s)) (trailingSixMonths y m)
     \<and> t_labels (getMonthlyTrendData dateOf s y m)
       = map (\<lambda>(yy, mm). numToString mm @ [0x6708]) (trailingSixMonths y m)
     \<and> length (t_data (getMonthlyTrendData dateOf s y m)) = 6
     \<and> length (t_labels (getMonthlyTrendData dateOf s y m)) = 6"
    unfolding d l by (simp add: trailingSixMonths_def)
qed


text \<open>Witness: reference January 2026 gives August 2025 to January 2026; of the three
  entries, one is of August 2025 and two are of January 2026.\<close>

theorem trend_is_six_trailing_months_witness:
  "(1::int) \<le> 1 \<and> (1::int) \<le> 12
   \<and> trailingSixMonths 2026 1 = [(2025, 8), (2025, 9), (2025, 10), (2025, 11), (2025, 12), (2026, 1)]
   \<and> t_data (getMonthlyTrendData sampleDateOf
        (sampleStore [sampleEntry ''a'' 100 (str ''c''), (sampleEntry ''b'' 40 (str ''c''))\<lparr>e_date := str ''2025-08-15''\<rparr>,
                      sampleEntry ''d'' 7 (str ''x'')] []) 2026 1)
      = [40, 0, 0, 0, 0, 107]"
  using trend_is_six_trailing_months [where m = 1 and y = 2026 and dateOf = sampleDateOf
      and s = "sampleStore [sampleEntry ''a'' 100 (str ''c''), (sampleEntry ''b'' 40 (str ''c''))\<lparr>e_date := str ''2025-08-15''\<rparr>,
                      sampleEntry ''d'' 7 (str ''x'')] []"]
  by (simp add: trailingSixMonths_def monthsBefore_def sampleStore_def sampleEntry_def sampleDateOf_def
      getEntriesByMonth_def loadEntries_def sumAmounts_def str_def)

subsection \<open>Double arithmetic\<close>

lemma bitLength_bounds:
  "0 < n \<Longrightarrow> \<exists>k. bitLength n = Suc k \<and> 2 ^ k \<le> n \<and> n < 2 ^ Suc k"
proof (induction n rule: bitLength.induct)
  case (1 n)
  show ?case
  proof (cases "n div 2 = 0")
    case True
    with "1.prems" have n: "n = 1" by presburger
    have "bitLength n = Suc (bitLength (n div 2))"
      using "1.prems" by (simp add: bitLength.simps [of n])
    also have "bitLength (n div 2) = 0"
      using True by (simp add: bitLength.simps [of 0])
    finally show ?thesis using n by simp
  next
    case False
    then have "0 < n div 2" by simp
    with "1.IH" "1.prems" obtain j where j: "bitLength (n div 2) = Suc j" "2 ^ j \<le> n div 2" "n div 2 < 2 ^ Suc j"
      by auto
    have "bitLength n = Suc (Suc j)"
      using "1.prems" j(1) by (simp add: bitLength.simps [of n])
    moreover have "2 * (n div 2) \<le> n" "n < 2 * (n div 2) + 2" by presburger+
    then have "2 ^ Suc j \<le> n" "n < 2 ^ Suc (Suc j)" using j(2,3) by simp_all
    ultimately show ?thesis by blast
  qed
qed

lemma ilog2_bounds:
  assumes "0 < x"
  shows "power_int 2 (ilog2 x) \<le> x" and "x < power_int 2 (ilog2 x + 1)"
proof -
  obtain p q where pq: "quotient_of x = (p, q)" by (cases "quotient_of x")
  then have q: "0 < q" and x: "x = of_int p / of_int q"
    by (simp_all add: quotient_of_denom_pos quotient_of_div)
  from assms x q have p: "0 < p" by (simp add: zero_less_divide_iff)
  obtain a where a: "bitLength (nat p) = Suc a" "2 ^ a \<le> nat p" "nat p < 2 ^ Suc a"
    using bitLength_bounds [of "nat p"] p by auto
  obtain b where b: "bitLength (nat q) = Suc b" "2 ^ b \<le> nat q" "nat q < 2 ^ Suc b"
    using bitLength_bounds [of "nat q"] q by auto
  define d where "d = int a - int b"
  have pa: "(2::rat) ^ a \<le> of_int p" "(of_int p :: rat) < 2 ^ Suc a"
  proof -
    have "(of_nat (2 ^ a) :: rat) \<le> of_nat (nat p)" using a(2) by (simp only: of_nat_le_iff)
    then show "(2::rat) ^ a \<le> of_int p" using p by simp
    have "(of_nat (nat p) :: rat) < of_nat (2 ^ Suc a)" using a(3) by (simp only: of_nat_less_iff)
    then show "(of_int p :: rat) < 2 ^ Suc a" using p by simp
  qed
  have qb: "(2::rat) ^ b \<le> of_int q" "(of_int q :: rat) < 2 ^ Suc b"
  proof -
    have "(of_nat (2 ^ b) :: rat) \<le> of_nat (nat q)" using b(2) by (simp only: of_nat_le_iff)
    then show "(2::rat) ^ b \<le> of_int q" using q by simp
    have "(of_nat (nat q) :: rat) < of_nat (2 ^ Suc b)" using b(3) by (simp only: of_nat_less_iff)
    then show "(of_int q :: rat) < 2 ^ Suc b" using q by simp
  qed
  have qpos: "(0::rat) < of_int q" using q by simp
  have lo: "power_int 2 (d - 1) \<le> x"
  proof -
    have e: "d - 1 = int a - int (Suc b)" by (simp add: d_def)
    have "power_int (2::rat) (int a - int (Suc b)) = power_int 2 (int a) / power_int 2 (int (Suc b))"
      by (rule power_int_diff) simp
    then have "power_int (2::rat) (d - 1) = 2 ^ a / 2 ^ Suc b"
      by (simp only: e power_int_of_nat)
    also have "\<dots> \<le> of_int p / 2 ^ Suc b"
      using pa(1) by (simp add: divide_right_mono)
    also have "\<dots> \<le> of_int p / of_int q"
      using qb(2) qpos p by (intro divide_left_mono) simp_all
    finally show ?thesis using x by simp
  qed
  have hi: "x < power_int 2 (d + 1)"
  proof -
    have "x = of_int p / of_int q" by (rule x)
    also have "\<dots> < 2 ^ Suc a / of_int q"
      using pa(2) qpos by (simp add: divide_strict_right_mono)
    also have "\<dots> \<le> 2 ^ Suc a / 2 ^ b"
      using qb(1) qpos by (intro divide_left_mono) simp_all
    also have "\<dots> = power_int (2::rat) (d + 1)"
    proof -
      have e: "d + 1 = int (Suc a) - int b" by (simp add: d_def)
      have "power_int (2::rat) (int (Suc a) - int b) = power_int 2 (int (Suc a)) / power_int 2 (int b)"
        by (rule power_int_diff) simp
      then show ?thesis by (simp only: e power_int_of_nat)
    qed
    finally show ?thesis .
  qed
  have i: "ilog2 x = (if power_int 2 d \<le> x then d else d - 1)"
    using pq a(1) b(1) by (simp add: ilog2_def d_def)
  show "power_int 2 (ilog2 x) \<le> x"
    using lo by (simp add: i)
  show "x < power_int 2 (ilog2 x + 1)"
    using hi by (auto simp: i not_le)
qed

lemma power_int_2_less_imp:
  assumes "power_int (2::rat) m < power_int 2 n"
  shows "m < n"
proof (rule ccontr)
  assume "\<not> m < n"
  then have "n \<le> m" by simp
  then have "power_int (2::rat) n \<le> power_int 2 m"
    by (intro power_int_increasing) simp_all
  with assms show False by simp
qed

lemma ilog2_unique:
  assumes "0 < x" and "power_int 2 e \<le> x" and "x < power_int 2 (e + 1)"
  shows "ilog2 x = e"
proof -
  have "power_int (2::rat) (ilog2 x) < power_int 2 (e + 1)"
    using ilog2_bounds(1) [OF assms(1)] assms(3) by simp
  then have "ilog2 x < e + 1" by (rule power_int_2_less_imp)
  moreover have "power_int (2::rat) e < power_int 2 (ilog2 x + 1)"
    using ilog2_bounds(2) [OF assms(1)] assms(2) by simp
  then have "e < ilog2 x + 1" by (rule power_int_2_less_imp)
  ultimately show ?thesis by simp
qed

lemma ilog2_mono:
  assumes "0 < x" and "x \<le> y"
  shows "ilog2 x \<le> ilog2 y"
proof -
  have "0 < y" using assms by simp
  have "power_int (2::rat) (ilog2 x) < power_int 2 (ilog2 y + 1)"
    using ilog2_bounds(1) [OF assms(1)] ilog2_bounds(2) [OF \<open>0 < y\<close>] assms(2) by simp
  then have "ilog2 x < ilog2 y + 1" by (rule power_int_2_less_imp)
  then show ?thesis by simp
qed

lemma roundHalfEven_of_int: "roundHalfEven (of_int n) = n"
  by (simp add: roundHalfEven_def)

lemma roundHalfEven_floor: "\<lfloor>z\<rfloor> \<le> roundHalfEven z" "roundHalfEven z \<le> \<lfloor>z\<rfloor> + 1"
  by (simp_all add: roundHalfEven_def Let_def)

lemma roundHalfEven_error: "\<bar>of_int (roundHalfEven z) - z\<bar> \<le> 1 / 2"
proof -
  have f: "of_int \<lfloor>z\<rfloor> \<le> z" "z < of_int \<lfloor>z\<rfloor> + 1" by linarith+
  consider (lo) "z - of_int \<lfloor>z\<rfloor> < 1 / 2" | (hi) "1 / 2 < z - of_int \<lfloor>z\<rfloor>"
    | (tie) "z - of_int \<lfloor>z\<rfloor> = 1 / 2"
    by linarith
  then show ?thesis
  proof cases
    case lo
    then have "roundHalfEven z = \<lfloor>z\<rfloor>" by (simp add: roundHalfEven_def Let_def)
    then have "of_int (roundHalfEven z) = (of_int \<lfloor>z\<rfloor> :: rat)" by simp
    with lo f show ?thesis by linarith
  next
    case hi
    then have "roundHalfEven z = \<lfloor>z\<rfloor> + 1" by (simp add: roundHalfEven_def Let_def)
    then have "of_int (roundHalfEven z) = (of_int \<lfloor>z\<rfloor> :: rat) + 1" by simp
    with hi f show ?thesis by linarith
  next
    case tie
    then have "roundHalfEven z = \<lfloor>z\<rfloor> \<or> roundHalfEven z = \<lfloor>z\<rfloor> + 1"
      by (simp add: roundHalfEven_def Let_def)
    then have "of_int (roundHalfEven z) = (of_int \<lfloor>z\<rfloor> :: rat)
        \<or> of_int (roundHalfEven z) = (of_int \<lfloor>z\<rfloor> :: rat) + 1"
      by auto
    with tie show ?thesis by (elim disjE) linarith+
  qed
qed

lemma roundHalfEven_mono:
  assumes "z \<le> w"
  shows "roundHalfEven z \<le> roundHalfEven w"
proof (cases "\<lfloor>z\<rfloor> = \<lfloor>w\<rfloor>")
  case True
  with assms show ?thesis
    by (auto simp: roundHalfEven_def Let_def)
next
  case False
  with assms have "\<lfloor>z\<rfloor> < \<lfloor>w\<rfloor>" using floor_mono [of z w] by linarith
  then have "roundHalfEven z \<le> \<lfloor>w\<rfloor>" using roundHalfEven_floor(2) [of z] by linarith
  then show ?thesis using roundHalfEven_floor(1) [of w] by linarith
qed

text \<open>The unit in the last place of a positive number.\<close>

lemma ulp_facts:
  assumes "0 < x"
  defines "ulp \<equiv> power_int (2::rat) (ilog2 x - 52)"
  shows "0 < ulp"
    and "2 ^ 52 * ulp = power_int 2 (ilog2 x)"
    and "2 ^ 53 * ulp = power_int 2 (ilog2 x + 1)"
    and "2 ^ 52 \<le> x / ulp"
    and "x / ulp < 2 ^ 53"
proof -
  show u: "0 < ulp" by (simp add: ulp_def)
  have "power_int (2::rat) (52 + (ilog2 x - 52)) = power_int 2 52 * power_int 2 (ilog2 x - 52)"
    by (rule power_int_add) simp
  then show a: "2 ^ 52 * ulp = power_int 2 (ilog2 x)" by (simp add: ulp_def)
  have "power_int (2::rat) (53 + (ilog2 x - 52)) = power_int 2 53 * power_int 2 (ilog2 x - 52)"
    by (rule power_int_add) simp
  then show b: "2 ^ 53 * ulp = power_int 2 (ilog2 x + 1)" by (simp add: ulp_def add.commute)
  have "2 ^ 52 * ulp \<le> x" using ilog2_bounds(1) [OF assms(1)] by (simp only: a)
  then show "2 ^ 52 \<le> x / ulp" using u by (simp add: pos_le_divide_eq)
  have "x < 2 ^ 53 * ulp" using ilog2_bounds(2) [OF assms(1)] by (simp only: b)
  then show "x / ulp < 2 ^ 53" using u by (simp add: pos_divide_less_eq)
qed

lemma binary64_pos:
  assumes "0 < x"
  shows "binary64 x = of_int (roundHalfEven (x / power_int 2 (ilog2 x - 52))) * power_int 2 (ilog2 x - 52)"
  using assms by (simp add: binary64_def Let_def)

lemma binary64_lower:
  assumes "0 < x"
  shows "power_int 2 (ilog2 x) \<le> binary64 x"
proof -
  let ?u = "power_int (2::rat) (ilog2 x - 52)"
  have "roundHalfEven (of_int (2 ^ 52)) \<le> roundHalfEven (x / ?u)"
    using ulp_facts(4) [OF assms] by (intro roundHalfEven_mono) simp
  then have "(2 ^ 52 :: int) \<le> roundHalfEven (x / ?u)"
    by (simp only: roundHalfEven_of_int)
  then have "(of_int (2 ^ 52) :: rat) \<le> of_int (roundHalfEven (x / ?u))"
    by (simp only: of_int_le_iff)
  then have "2 ^ 52 * ?u \<le> of_int (roundHalfEven (x / ?u)) * ?u"
    using ulp_facts(1) [OF assms] by (intro mult_right_mono) simp_all
  then show ?thesis
    by (simp only: binary64_pos [OF assms] ulp_facts(2) [OF assms])
qed

lemma binary64_upper:
  assumes "0 < x"
  shows "binary64 x \<le> power_int 2 (ilog2 x + 1)"
proof -
  let ?u = "power_int (2::rat) (ilog2 x - 52)"
  have "roundHalfEven (x / ?u) \<le> roundHalfEven (of_int (2 ^ 53))"
    using ulp_facts(5) [OF assms] by (intro roundHalfEven_mono) simp
  then have "roundHalfEven (x / ?u) \<le> (2 ^ 53 :: int)"
    by (simp only: roundHalfEven_of_int)
  then have "(of_int (roundHalfEven (x / ?u)) :: rat) \<le> of_int (2 ^ 53)"
    by (simp only: of_int_le_iff)
  then have "of_int (roundHalfEven (x / ?u)) * ?u \<le> 2 ^ 53 * ?u"
    using ulp_facts(1) [OF assms] by (intro mult_right_mono) simp_all
  then show ?thesis
    by (simp only: binary64_pos [OF assms] ulp_facts(3) [OF assms])
qed

lemma binary64_mono_pos:
  assumes "0 < x" and "x \<le> y"
  shows "binary64 x \<le> binary64 y"
proof -
  have y: "0 < y" using assms by simp
  have le: "ilog2 x \<le> ilog2 y" using assms by (rule ilog2_mono)
  show ?thesis
  proof (cases "ilog2 x = ilog2 y")
    case True
    let ?u = "power_int (2::rat) (ilog2 y - 52)"
    have u: "0 < ?u" by simp
    have "x / ?u \<le> y / ?u" using assms(2) u by (simp add: divide_right_mono)
    then have "roundHalfEven (x / ?u) \<le> roundHalfEven (y / ?u)" by (rule roundHalfEven_mono)
    then have "(of_int (roundHalfEven (x / ?u)) :: rat) \<le> of_int (roundHalfEven (y / ?u))"
      by (simp only: of_int_le_iff)
    then have "of_int (roundHalfEven (x / ?u)) * ?u \<le> of_int (roundHalfEven (y / ?u)) * ?u"
      using u by (intro mult_right_mono) simp_all
    then show ?thesis
      by (simp only: binary64_pos [OF assms(1)] binary64_pos [OF y] True)
  next
    case False
    with le have "ilog2 x + 1 \<le> ilog2 y" by simp
    then have "power_int (2::rat) (ilog2 x + 1) \<le> power_int 2 (ilog2 y)"
      by (intro power_int_increasing) simp_all
    then show ?thesis
      using binary64_upper [OF assms(1)] binary64_lower [OF y] by linarith
  qed
qed

lemma binary64_0: "binary64 0 = 0"
  by (simp add: binary64_def)

lemma binary64_mono:
  assumes "0 \<le> x" and "x \<le> y"
  shows "binary64 x \<le> binary64 y"
proof (cases "x = 0")
  case True
  show ?thesis
  proof (cases "y = 0")
    case True
    with \<open>x = 0\<close> show ?thesis by simp
  next
    case False
    with assms have "0 < y" by simp
    then have "0 < binary64 y"
      using binary64_lower [of y] zero_less_power_int [of "2::rat" "ilog2 y"] by linarith
    with \<open>x = 0\<close> show ?thesis by (simp add: binary64_0)
  qed
next
  case False
  with assms have "0 < x" by simp
  then show ?thesis using assms(2) by (rule binary64_mono_pos)
qed

lemma binary64_error:
  assumes "0 \<le> x"
  shows "\<bar>binary64 x - x\<bar> \<le> unitRoundoff * x"
proof (cases "x = 0")
  case True
  then show ?thesis by (simp add: binary64_0)
next
  case False
  with assms have x: "0 < x" by simp
  let ?u = "power_int (2::rat) (ilog2 x - 52)"
  have u: "0 < ?u" by simp
  have "binary64 x - x = (of_int (roundHalfEven (x / ?u)) - x / ?u) * ?u"
    using u by (simp add: binary64_pos [OF x] algebra_simps)
  then have "\<bar>binary64 x - x\<bar> = \<bar>of_int (roundHalfEven (x / ?u)) - x / ?u\<bar> * ?u"
    using u by (simp add: abs_mult)
  also have "\<dots> \<le> 1 / 2 * ?u"
    using roundHalfEven_error [of "x / ?u"] u by (intro mult_right_mono) simp_all
  also have "\<dots> = unitRoundoff * (2 ^ 52 * ?u)"
    by (simp add: unitRoundoff_def)
  also have "\<dots> \<le> unitRoundoff * x"
    using ilog2_bounds(1) [OF x]
    by (simp only: ulp_facts(2) [OF x]) (simp add: unitRoundoff_def)
  finally show ?thesis .
qed

text \<open>A number \<open>m * 2^k\<close> with \<open>|m| < 2^53\<close> is a double, and is its own rounding.\<close>

lemma binary64_exact_pos:
  assumes m: "0 < m" "m < 2 ^ 53"
  shows "binary64 (of_int m * power_int 2 k) = of_int m * power_int 2 k"
proof -
  let ?x = "of_int m * power_int (2::rat) k"
  have x: "0 < ?x" using m(1) by simp
  let ?e = "ilog2 ?x"
  have "power_int (2::rat) ?e \<le> ?x" using x by (rule ilog2_bounds)
  also have "?x < 2 ^ 53 * power_int 2 k"
  proof -
    have "(of_int m :: rat) < of_int (2 ^ 53)" using m(2) by (simp only: of_int_less_iff)
    then show ?thesis by (intro mult_strict_right_mono) simp_all
  qed
  also have "\<dots> = power_int 2 (53 + k)"
    using power_int_add [of "2::rat" 53 k] by simp
  finally have "?e < 53 + k" by (rule power_int_2_less_imp)
  then obtain j :: nat where j: "k - (?e - 52) = int j"
    using nonneg_int_cases [of "k - (?e - 52)"] by auto
  have "power_int (2::rat) (k - (?e - 52)) = power_int 2 k / power_int 2 (?e - 52)"
    by (rule power_int_diff) simp
  then have "?x / power_int 2 (?e - 52) = of_int m * 2 ^ j"
    by (simp add: j)
  also have "\<dots> = of_int (m * 2 ^ j)" by simp
  finally have "roundHalfEven (?x / power_int 2 (?e - 52)) = m * 2 ^ j"
    by (simp only: roundHalfEven_of_int)
  then have "binary64 ?x = of_int (m * 2 ^ j) * power_int 2 (?e - 52)"
    by (simp only: binary64_pos [OF x])
  also have "\<dots> = of_int m * (power_int 2 (int j) * power_int 2 (?e - 52))"
    by simp
  also have "power_int (2::rat) (int j) * power_int 2 (?e - 52) = power_int 2 (int j + (?e - 52))"
    by (rule power_int_add [symmetric]) simp
  also have "int j + (?e - 52) = k" using j by simp
  finally show ?thesis .
qed

lemma binary64_1: "binary64 1 = 1"
  using binary64_exact_pos [of 1 0] by simp

lemma binary64_100: "binary64 100 = 100"
  using binary64_exact_pos [of 100 0] by simp

lemma roundHalfEven_eqI:
  assumes "of_int m - 1 / 2 < z" and "z < of_int m + 1 / 2"
  shows "roundHalfEven z = m"
proof (cases "of_int m \<le> z")
  case True
  with assms(2) have "\<lfloor>z\<rfloor> = m" by (intro floor_unique) linarith+
  with assms(2) show ?thesis by (simp add: roundHalfEven_def Let_def)
next
  case False
  with assms(1) have f: "\<lfloor>z\<rfloor> = m - 1" by (intro floor_unique) (simp, linarith)+
  have "1 / 2 < z - of_int (m - 1)" using assms(1) by simp
  then show ?thesis using f by (simp add: roundHalfEven_def Let_def)
qed

lemma binary64_eqI:
  assumes "0 < x" and "power_int 2 e \<le> x" and "x < power_int 2 (e + 1)"
    and "of_int m - 1 / 2 < x / power_int 2 (e - 52)"
    and "x / power_int 2 (e - 52) < of_int m + 1 / 2"
  shows "binary64 x = of_int m * power_int 2 (e - 52)"
proof -
  have e: "ilog2 x = e" using assms(1-3) by (rule ilog2_unique)
  have "roundHalfEven (x / power_int 2 (e - 52)) = m" using assms(4,5) by (rule roundHalfEven_eqI)
  then show ?thesis by (simp only: binary64_pos [OF assms(1)] e)
qed

subsection \<open>Monthly aggregation\<close>

lemma js_sort_Cons: "js_sort cmp (x # xs) = insort_cmp cmp x (js_sort cmp xs)"
  by (simp add: js_sort_def)

lemma sum_list_insort_cmp:
  fixes f :: "'a \<Rightarrow> 'b::comm_monoid_add"
  shows "sum_list (map f (insort_cmp cmp x xs)) = f x + sum_list (map f xs)"
  by (induction xs) (simp_all add: ac_simps)

lemma sum_list_js_sort:
  fixes f :: "'a \<Rightarrow> 'b::comm_monoid_add"
  shows "sum_list (map f (js_sort cmp xs)) = sum_list (map f xs)"
proof (induction xs)
  case Nil
  show ?case by (simp add: js_sort_def)
next
  case (Cons x xs)
  then show ?case by (simp add: js_sort_Cons sum_list_insort_cmp)
qed

lemma set_insort_cmp: "set (insort_cmp cmp x xs) = insert x (set xs)"
  by (induction xs) auto

lemma set_js_sort: "set (js_sort cmp xs) = set xs"
proof (induction xs)
  case Nil
  show ?case by (simp add: js_sort_def)
next
  case (Cons x xs)
  then show ?case by (simp add: js_sort_Cons set_insort_cmp)
qed

lemma map_insort_cmp:
  assumes "\<And>a b. cmp' (g a) (g b) = cmp a b"
  shows "map g (insort_cmp cmp x xs) = insort_cmp cmp' (g x) (map g xs)"
  by (induction xs) (simp_all add: assms)

lemma map_js_sort:
  assumes "\<And>a b. cmp' (g a) (g b) = cmp a b"
  shows "map g (js_sort cmp xs) = js_sort cmp' (map g xs)"
proof (induction xs)
  case Nil
  show ?case by (simp add: js_sort_def)
next
  case (Cons x xs)
  then show ?case by (simp add: js_sort_Cons map_insort_cmp [of cmp' g cmp, OF assms])
qed

lemma breakdownRows_triples:
  "map (\<lambda>b. (b_categoryName b, b_categoryColor b, b_amount b)) (breakdownRows t m)
   = map (\<lambda>a. (m_name a, m_color a, m_amount a)) (map snd m)"
  by (induction m) (auto simp: breakdownRows_def)

text \<open>
  Claim C10. The two aggregations agree: for every entry list and category list, the
  breakdown of \<open>calculateMonthlySummary\<close> and the list of \<open>getCategoryData\<close> are the same
  sequence of (category name, category color, amount): the same Map, the same filter to a
  positive amount, the same sort.
\<close>

theorem both_screens_aggregate_alike:
  "map (\<lambda>b. (b_categoryName b, b_categoryColor b, b_amount b))
       (s_categoryBreakdown (calculateMonthlySummary entries categories year month))
   = map (\<lambda>a. (m_name a, m_color a, m_amount a)) (getCategoryData categories entries)"
proof -
  let ?g1 = "\<lambda>b. (b_categoryName b, b_categoryColor b, b_amount b)"
  let ?g2 = "\<lambda>a. (m_name a, m_color a, m_amount a)"
  let ?cmp = "\<lambda>(a :: jsstring \<times> jsstring \<times> int) (b :: jsstring \<times> jsstring \<times> int). snd (snd b) - snd (snd a)"
  let ?P = "\<lambda>(t :: jsstring \<times> jsstring \<times> int). 0 < snd (snd t)"
  let ?rows = "breakdownRows (sumAmounts entries) (accumulate categories entries)"
  let ?accs = "map snd (accumulate categories entries)"
  have "map ?g1 (s_categoryBreakdown (calculateMonthlySummary entries categories year month))
      = map ?g1 (js_sort (\<lambda>a b. b_amount b - b_amount a) (filter (\<lambda>item. 0 < b_amount item) ?rows))"
    by (simp add: calculateMonthlySummary_def Let_def)
  also have "\<dots> = js_sort ?cmp (map ?g1 (filter (\<lambda>item. 0 < b_amount item) ?rows))"
    by (rule map_js_sort) simp
  also have "map ?g1 (filter (\<lambda>item. 0 < b_amount item) ?rows) = filter ?P (map ?g1 ?rows)"
    by (simp add: filter_map comp_def)
  also have "map ?g1 ?rows = map ?g2 ?accs"
    by (rule breakdownRows_triples)
  also have "filter ?P (map ?g2 ?accs) = map ?g2 (filter (\<lambda>item. 0 < m_amount item) ?accs)"
    by (simp add: filter_map comp_def)
  also have "js_sort ?cmp (map ?g2 (filter (\<lambda>item. 0 < m_amount item) ?accs))
      = map ?g2 (js_sort (\<lambda>a b. m_amount b - m_amount a) (filter (\<lambda>item. 0 < m_amount item) ?accs))"
    by (rule map_js_sort [symmetric]) simp
  finally show ?thesis by (simp add: getCategoryData_def)
qed

text \<open>An evaluation of both: three categories, four entries, one of them of an unknown
  category; the two categories of equal amount keep the order of the category list.\<close>

theorem both_screens_aggregate_alike_witness:
  "map (\<lambda>a. (m_name a, m_amount a))
     (getCategoryData [sampleCategory ''c'' shokuhi, sampleCategory ''d'' sonota, sampleCategory ''f'' goraku]
        [sampleEntry ''1'' 100 (str ''c''), sampleEntry ''2'' 300 (str ''d''), sampleEntry ''3'' 7 (str ''x''),
         sampleEntry ''4'' 200 (str ''c'')])
   = [(shokuhi, 300), (sonota, 300)]
   \<and> map (\<lambda>b. (b_categoryName b, b_amount b))
     (s_categoryBreakdown (calculateMonthlySummary
        [sampleEntry ''1'' 100 (str ''c''), sampleEntry ''2'' 300 (str ''d''), sampleEntry ''3'' 7 (str ''x''),
         sampleEntry ''4'' 200 (str ''c'')]
        [sampleCategory ''c'' shokuhi, sampleCategory ''d'' sonota, sampleCategory ''f'' goraku] 2026 1))
   = [(shokuhi, 300), (sonota, 300)]"
proof -
  have g: "map (\<lambda>a. (m_name a, m_color a, m_amount a))
     (getCategoryData [sampleCategory ''c'' shokuhi, sampleCategory ''d'' sonota, sampleCategory ''f'' goraku]
        [sampleEntry ''1'' 100 (str ''c''), sampleEntry ''2'' 300 (str ''d''), sampleEntry ''3'' 7 (str ''x''),
         sampleEntry ''4'' 200 (str ''c'')])
     = [(shokuhi, str ''#95A5A6'', 300), (sonota, str ''#95A5A6'', 300)]"
    by (simp add: getCategoryData_def accumulate_def initCategoryMap_def addToCategory_def map_get_def
        js_sort_def sampleCategory_def sampleEntry_def str_def shokuhi_def sonota_def goraku_def)
  have "map (\<lambda>t. (fst t, snd (snd t))) (map (\<lambda>a. (m_name a, m_color a, m_amount a))
     (getCategoryData [sampleCategory ''c'' shokuhi, sampleCategory ''d'' sonota, sampleCategory ''f'' goraku]
        [sampleEntry ''1'' 100 (str ''c''), sampleEntry ''2'' 300 (str ''d''), sampleEntry ''3'' 7 (str ''x''),
         sampleEntry ''4'' 200 (str ''c'')]))
     = [(shokuhi, 300), (sonota, 300)]"
    unfolding g by simp
  moreover have "map (\<lambda>t. (fst t, snd (snd t))) (map (\<lambda>b. (b_categoryName b, b_categoryColor b, b_amount b))
     (s_categoryBreakdown (calculateMonthlySummary
        [sampleEntry ''1'' 100 (str ''c''), sampleEntry ''2'' 300 (str ''d''), sampleEntry ''3'' 7 (str ''x''),
         sampleEntry ''4'' 200 (str ''c'')]
        [sampleCategory ''c'' shokuhi, sampleCategory ''d'' sonota, sampleCategory ''f'' goraku] 2026 1)))
     = [(shokuhi, 300), (sonota, 300)]"
    unfolding both_screens_aggregate_alike g by simp
  ultimately show ?thesis by (simp add: comp_def)
qed

lemma foldl_add_amounts:
  "foldl (\<lambda>sum entry. sum + e_amount entry) a es = a + sum_list (map e_amount es)"
  by (induction es arbitrary: a) simp_all

lemma sumAmounts_sum_list: "sumAmounts es = sum_list (map e_amount es)"
  by (simp add: sumAmounts_def foldl_add_amounts)

lemma keys_map_set: "fst ` set (map_set k v m) = insert k (fst ` set m)"
  by (induction k v m rule: map_set.induct) (auto split: if_splits)

lemma keys_foldl_map_set:
  "fst ` set (foldl (\<lambda>m cat. map_set (c_id cat) (h cat) m) m0 cs) = fst ` set m0 \<union> c_id ` set cs"
  by (induction cs arbitrary: m0) (auto simp: keys_map_set)

lemma keys_initCategoryMap: "fst ` set (initCategoryMap cs) = c_id ` set cs"
  by (simp add: initCategoryMap_def keys_foldl_map_set)

lemma set_map_set: "set (map_set k v m) \<subseteq> insert (k, v) (set m)"
  by (induction k v m rule: map_set.induct) (auto split: if_splits)

lemma zero_foldl_map_set:
  assumes "\<forall>kv \<in> set m0. m_amount (snd kv) = 0"
  shows "\<forall>kv \<in> set (foldl (\<lambda>m cat. map_set (c_id cat)
            \<lparr>m_name = c_name cat, m_color = c_color cat, m_amount = 0\<rparr> m) m0 cs).
          m_amount (snd kv) = 0"
  using assms
proof (induction cs arbitrary: m0)
  case Nil
  then show ?case by simp
next
  case (Cons c cs)
  have "\<forall>kv \<in> set (map_set (c_id c) \<lparr>m_name = c_name c, m_color = c_color c, m_amount = 0\<rparr> m0).
          m_amount (snd kv) = 0"
    using Cons.prems set_map_set [of "c_id c" "\<lparr>m_name = c_name c, m_color = c_color c, m_amount = 0\<rparr>" m0]
    by auto
  then show ?case by (simp add: Cons.IH)
qed

lemma zero_initCategoryMap: "\<forall>kv \<in> set (initCategoryMap cs). m_amount (snd kv) = 0"
  unfolding initCategoryMap_def by (rule zero_foldl_map_set) simp

lemma sum_list_all_zero:
  fixes f :: "'a \<Rightarrow> int"
  shows "\<forall>x \<in> set xs. f x = 0 \<Longrightarrow> sum_list (map f xs) = 0"
  by (induction xs) auto

lemma sum_zero_initCategoryMap: "sum_list (map (\<lambda>kv. m_amount (snd kv)) (initCategoryMap cs)) = 0"
  using zero_initCategoryMap [of cs] by (rule sum_list_all_zero)

lemma keys_map_modify: "map fst (map_modify k f m) = map fst m"
  by (induction m) auto

lemma map_get_None_iff: "map_get k m = None \<longleftrightarrow> k \<notin> fst ` set m"
  by (simp add: map_get_def map_of_eq_None_iff)

lemma sum_map_modify:
  "k \<in> fst ` set m \<Longrightarrow>
   sum_list (map (\<lambda>kv. m_amount (snd kv)) (map_modify k (\<lambda>c. c\<lparr>m_amount := m_amount c + d\<rparr>) m))
   = sum_list (map (\<lambda>kv. m_amount (snd kv)) m) + d"
proof (induction m)
  case Nil
  then show ?case by simp
next
  case (Cons kv m)
  obtain k' v' where kv: "kv = (k', v')" by (cases kv)
  show ?case
  proof (cases "k' = k")
    case True
    with kv show ?thesis by simp
  next
    case False
    with Cons.prems kv have "k \<in> fst ` set m" by auto
    then have "sum_list (map (\<lambda>kv. m_amount (snd kv)) (map_modify k (\<lambda>c. c\<lparr>m_amount := m_amount c + d\<rparr>) m))
      = sum_list (map (\<lambda>kv. m_amount (snd kv)) m) + d"
      by (rule Cons.IH)
    with False kv show ?thesis by simp
  qed
qed

lemma nonneg_map_modify:
  assumes "\<forall>kv \<in> set m. 0 \<le> m_amount (snd kv)" and "0 \<le> d"
  shows "\<forall>kv \<in> set (map_modify k (\<lambda>c. c\<lparr>m_amount := m_amount c + d\<rparr>) m). 0 \<le> m_amount (snd kv)"
  using assms
proof (induction m)
  case Nil
  then show ?case by simp
next
  case (Cons kv m)
  obtain k' v' where kv: "kv = (k', v')" by (cases kv)
  from Cons.prems
  have ih: "\<forall>kv \<in> set (map_modify k (\<lambda>c. c\<lparr>m_amount := m_amount c + d\<rparr>) m). 0 \<le> m_amount (snd kv)"
    by (intro Cons.IH) simp_all
  show ?case using Cons.prems ih kv by (cases "k' = k") auto
qed

lemma keys_addToCategory: "map fst (addToCategory m e) = map fst m"
  by (simp add: addToCategory_def keys_map_modify split: option.splits)

lemma sum_addToCategory:
  "sum_list (map (\<lambda>kv. m_amount (snd kv)) (addToCategory m e))
   = sum_list (map (\<lambda>kv. m_amount (snd kv)) m)
     + (if e_categoryId e \<in> fst ` set m then e_amount e else 0)"
proof (cases "map_get (e_categoryId e) m")
  case None
  then have "e_categoryId e \<notin> fst ` set m" by (simp add: map_get_None_iff)
  with None show ?thesis by (simp add: addToCategory_def)
next
  case (Some a)
  then have "e_categoryId e \<in> fst ` set m"
    using map_get_None_iff [of "e_categoryId e" m] by auto
  with Some show ?thesis by (simp add: addToCategory_def sum_map_modify)
qed

lemma nonneg_addToCategory:
  assumes "\<forall>kv \<in> set m. 0 \<le> m_amount (snd kv)" and "0 \<le> e_amount e"
  shows "\<forall>kv \<in> set (addToCategory m e). 0 \<le> m_amount (snd kv)"
  using assms nonneg_map_modify [of m "e_amount e" "e_categoryId e"]
  by (simp add: addToCategory_def split: option.splits)

lemma keys_foldl_addToCategory: "map fst (foldl addToCategory m es) = map fst m"
  by (induction es arbitrary: m) (simp_all add: keys_addToCategory)

lemma sum_foldl_addToCategory:
  "sum_list (map (\<lambda>kv. m_amount (snd kv)) (foldl addToCategory m es))
   = sum_list (map (\<lambda>kv. m_amount (snd kv)) m)
     + sum_list (map e_amount (filter (\<lambda>e. e_categoryId e \<in> fst ` set m) es))"
proof (induction es arbitrary: m)
  case Nil
  show ?case by simp
next
  case (Cons e es)
  have k: "fst ` set (addToCategory m e) = fst ` set m"
    using keys_addToCategory [of m e] by (metis set_map)
  show ?case by (simp add: Cons.IH k sum_addToCategory)
qed

lemma nonneg_foldl_addToCategory:
  assumes "\<forall>kv \<in> set m. 0 \<le> m_amount (snd kv)" and "\<forall>e \<in> set es. 0 \<le> e_amount e"
  shows "\<forall>kv \<in> set (foldl addToCategory m es). 0 \<le> m_amount (snd kv)"
  using assms
proof (induction es arbitrary: m)
  case Nil
  then show ?case by simp
next
  case (Cons e es)
  from Cons.prems have "\<forall>kv \<in> set (addToCategory m e). 0 \<le> m_amount (snd kv)"
    by (intro nonneg_addToCategory) simp_all
  with Cons.prems show ?case by (simp add: Cons.IH)
qed

lemma sum_accumulate:
  "sum_list (map (\<lambda>kv. m_amount (snd kv)) (accumulate cs es))
   = sum_list (map e_amount (filter (\<lambda>e. e_categoryId e \<in> c_id ` set cs) es))"
  by (simp add: accumulate_def sum_foldl_addToCategory sum_zero_initCategoryMap keys_initCategoryMap)

lemma nonneg_accumulate:
  assumes "\<forall>e \<in> set es. 0 \<le> e_amount e"
  shows "\<forall>kv \<in> set (accumulate cs es). 0 \<le> m_amount (snd kv)"
  unfolding accumulate_def
  using zero_initCategoryMap [of cs] assms by (intro nonneg_foldl_addToCategory) simp_all

lemma b_amount_breakdownRows: "map b_amount (breakdownRows t m) = map (\<lambda>kv. m_amount (snd kv)) m"
  by (induction m) (auto simp: breakdownRows_def)

lemma sum_list_filter_positive:
  fixes f :: "'a \<Rightarrow> int"
  assumes "\<forall>x \<in> set xs. 0 \<le> f x"
  shows "sum_list (map f (filter (\<lambda>x. 0 < f x) xs)) = sum_list (map f xs)"
  using assms by (induction xs) auto

lemma sum_list_split_filter:
  fixes f :: "'a \<Rightarrow> int"
  shows "sum_list (map f xs) = sum_list (map f (filter P xs)) + sum_list (map f (filter (\<lambda>x. \<not> P x) xs))"
  by (induction xs) auto

lemma member_le_sum_list_int:
  fixes f :: "'a \<Rightarrow> int"
  assumes "\<forall>x \<in> set xs. 0 \<le> f x" and "x \<in> set xs"
  shows "f x \<le> sum_list (map f xs)"
  using assms
proof (induction xs)
  case Nil
  then show ?case by simp
next
  case (Cons y ys)
  have "0 \<le> sum_list (map f ys)"
    using Cons.prems(1) by (intro sum_list_nonneg) auto
  with Cons show ?case by auto
qed

text \<open>The breakdown of the summary, its amounts and their sum.\<close>

lemma breakdown_unfold:
  "s_categoryBreakdown (calculateMonthlySummary es cs y m)
   = js_sort (\<lambda>a b. b_amount b - b_amount a)
       (filter (\<lambda>item. 0 < b_amount item) (breakdownRows (sumAmounts es) (accumulate cs es)))"
  by (simp add: calculateMonthlySummary_def Let_def)

lemma total_unfold: "s_totalAmount (calculateMonthlySummary es cs y m) = sum_list (map e_amount es)"
  by (simp add: calculateMonthlySummary_def Let_def sumAmounts_sum_list)

lemma nonneg_breakdownRows:
  assumes "\<forall>e \<in> set es. 0 \<le> e_amount e"
  shows "\<forall>b \<in> set (breakdownRows t (accumulate cs es)). 0 \<le> b_amount b"
proof -
  have "\<forall>a \<in> set (map (\<lambda>kv. m_amount (snd kv)) (accumulate cs es)). 0 \<le> a"
    using nonneg_accumulate [OF assms, of cs] by auto
  then have "\<forall>a \<in> set (map b_amount (breakdownRows t (accumulate cs es))). 0 \<le> a"
    by (simp only: b_amount_breakdownRows)
  then show ?thesis by auto
qed

lemma breakdown_sum:
  assumes "\<forall>e \<in> set es. 0 \<le> e_amount e"
  shows "sum_list (map b_amount (s_categoryBreakdown (calculateMonthlySummary es cs y m)))
         = sum_list (map e_amount (filter (\<lambda>e. e_categoryId e \<in> c_id ` set cs) es))"
proof -
  let ?rows = "breakdownRows (sumAmounts es) (accumulate cs es)"
  have "sum_list (map b_amount (s_categoryBreakdown (calculateMonthlySummary es cs y m)))
        = sum_list (map b_amount (filter (\<lambda>item. 0 < b_amount item) ?rows))"
    by (simp only: breakdown_unfold sum_list_js_sort)
  also have "\<dots> = sum_list (map b_amount ?rows)"
    using nonneg_breakdownRows [OF assms] by (rule sum_list_filter_positive)
  also have "\<dots> = sum_list (map (\<lambda>kv. m_amount (snd kv)) (accumulate cs es))"
    by (simp only: b_amount_breakdownRows)
  finally show ?thesis by (simp only: sum_accumulate)
qed

lemma unmatched_zero_iff:
  assumes "\<forall>e \<in> set es. 0 \<le> e_amount e"
  shows "sum_list (map e_amount (filter (\<lambda>e. \<not> P e) es)) = 0
         \<longleftrightarrow> (\<forall>e \<in> set es. 0 < e_amount e \<longrightarrow> P e)"
proof -
  have "sum_list (map e_amount (filter (\<lambda>e. \<not> P e) es)) = 0
        \<longleftrightarrow> (\<forall>a \<in> set (map e_amount (filter (\<lambda>e. \<not> P e) es)). a = 0)"
    using assms by (intro sum_list_nonneg_eq_0_iff) auto
  also have "\<dots> \<longleftrightarrow> (\<forall>e \<in> set es. 0 < e_amount e \<longrightarrow> P e)"
    using assms by force
  finally show ?thesis .
qed

lemma breakdown_le_total:
  assumes "\<forall>e \<in> set es. 0 \<le> e_amount e"
  shows "sum_list (map b_amount (s_categoryBreakdown (calculateMonthlySummary es cs y m)))
         \<le> s_totalAmount (calculateMonthlySummary es cs y m)"
    and "sum_list (map b_amount (s_categoryBreakdown (calculateMonthlySummary es cs y m)))
         = s_totalAmount (calculateMonthlySummary es cs y m)
         \<longleftrightarrow> (\<forall>e \<in> set es. 0 < e_amount e \<longrightarrow> e_categoryId e \<in> c_id ` set cs)"
proof -
  let ?P = "\<lambda>e. e_categoryId e \<in> c_id ` set cs"
  have s: "sum_list (map e_amount es)
     = sum_list (map e_amount (filter ?P es)) + sum_list (map e_amount (filter (\<lambda>e. \<not> ?P e) es))"
    by (rule sum_list_split_filter)
  have n: "0 \<le> sum_list (map e_amount (filter (\<lambda>e. \<not> ?P e) es))"
    using assms by (intro sum_list_nonneg) auto
  show "sum_list (map b_amount (s_categoryBreakdown (calculateMonthlySummary es cs y m)))
         \<le> s_totalAmount (calculateMonthlySummary es cs y m)"
    using s n unfolding breakdown_sum [OF assms] total_unfold by simp
  have "sum_list (map e_amount (filter ?P es)) = sum_list (map e_amount es)
        \<longleftrightarrow> sum_list (map e_amount (filter (\<lambda>e. \<not> ?P e) es)) = 0"
    using s by auto
  then show "sum_list (map b_amount (s_categoryBreakdown (calculateMonthlySummary es cs y m)))
         = s_totalAmount (calculateMonthlySummary es cs y m)
         \<longleftrightarrow> (\<forall>e \<in> set es. 0 < e_amount e \<longrightarrow> e_categoryId e \<in> c_id ` set cs)"
    by (simp only: breakdown_sum [OF assms] total_unfold unmatched_zero_iff [OF assms])
qed

lemma percentage_of_row:
  assumes "b \<in> set (breakdownRows t m)"
  shows "b_percentage b
    = (if 0 < t then Fin (binary64 (binary64 (of_int (b_amount b) / of_int t) * 100)) else Fin 0)"
  using assms by (auto simp: breakdownRows_def js_div_def)

lemma ids_of_rows: "map b_categoryId (breakdownRows t m) = map fst m"
  by (induction m) (auto simp: breakdownRows_def)

lemma ids_of_accumulate: "fst ` set (accumulate cs es) = c_id ` set cs"
proof -
  have "set (map fst (accumulate cs es)) = set (map fst (initCategoryMap cs))"
    by (simp only: accumulate_def keys_foldl_addToCategory)
  then show ?thesis by (simp add: keys_initCategoryMap)
qed

lemma breakdown_subset_rows:
  assumes "b \<in> set (s_categoryBreakdown (calculateMonthlySummary es cs y m))"
  shows "b \<in> set (breakdownRows (sumAmounts es) (accumulate cs es))" and "0 < b_amount b"
  using assms by (simp_all add: breakdown_unfold set_js_sort)

text \<open>
  Claim C8. When the total amount of the summary is 0, every row computed for a category
  has percentage 0, and so has every row kept in the breakdown; the empty entry list has
  total 0. Whatever the total, there is one row for each category id and its percentage is
  a finite number, never \<open>NaN\<close> or an infinity: the division is only made under the guard
  \<open>0 < totalAmount\<close>.
\<close>

theorem zero_total_gives_zero_percentages:
  "(s_totalAmount (calculateMonthlySummary entries categories year month) = 0 \<longrightarrow>
      (\<forall>b \<in> set (breakdownRows (sumAmounts entries) (accumulate categories entries)).
         b_percentage b = Fin 0)
      \<and> (\<forall>b \<in> set (s_categoryBreakdown (calculateMonthlySummary entries categories year month)).
         b_percentage b = Fin 0))
   \<and> (\<forall>b \<in> set (breakdownRows (sumAmounts entries) (accumulate categories entries)).
         \<exists>p. b_percentage b = Fin p)
   \<and> b_categoryId ` set (breakdownRows (sumAmounts entries) (accumulate categories entries))
       = c_id ` set categories
   \<and> s_totalAmount (calculateMonthlySummary [] categories year month) = 0"
proof (intro conjI impI ballI)
  fix b
  assume t: "s_totalAmount (calculateMonthlySummary entries categories year month) = 0"
  then have z: "sumAmounts entries = 0"
    by (simp add: calculateMonthlySummary_def Let_def)
  {
    assume "b \<in> set (breakdownRows (sumAmounts entries) (accumulate categories entries))"
    then show "b_percentage b = Fin 0"
      using z by (simp add: percentage_of_row)
  }
  {
    assume "b \<in> set (s_categoryBreakdown (calculateMonthlySummary entries categories year month))"
    then have "b \<in> set (breakdownRows (sumAmounts entries) (accumulate categories entries))"
      by (rule breakdown_subset_rows)
    then show "b_percentage b = Fin 0"
      using z by (simp add: percentage_of_row)
  }
next
  fix b
  assume "b \<in> set (breakdownRows (sumAmounts entries) (accumulate categories entries))"
  then show "\<exists>p. b_percentage b = Fin p"
    by (simp add: percentage_of_row)
next
  have "set (map b_categoryId (breakdownRows (sumAmounts entries) (accumulate categories entries)))
        = set (map fst (accumulate categories entries))"
    by (simp only: ids_of_rows)
  then show "b_categoryId ` set (breakdownRows (sumAmounts entries) (accumulate categories entries))
       = c_id ` set categories"
    by (simp add: ids_of_accumulate)
next
  show "s_totalAmount (calculateMonthlySummary [] categories year month) = 0"
    by (simp add: total_unfold)
qed

text \<open>Witness: the amounts 100 and -100 give the total 0 and a breakdown that is not
  empty; and the empty entry list.\<close>

theorem zero_total_gives_zero_percentages_witness:
  "s_totalAmount (calculateMonthlySummary
       [sampleEntry ''1'' 100 (str ''c''), sampleEntry ''2'' (- 100) (str ''d'')]
       [sampleCategory ''c'' shokuhi, sampleCategory ''d'' sonota] 2026 1) = 0
   \<and> map (\<lambda>b. (b_categoryName b, b_amount b, b_percentage b))
       (s_categoryBreakdown (calculateMonthlySummary
         [sampleEntry ''1'' 100 (str ''c''), sampleEntry ''2'' (- 100) (str ''d'')]
         [sampleCategory ''c'' shokuhi, sampleCategory ''d'' sonota] 2026 1))
     = [(shokuhi, 100, Fin 0)]
   \<and> map b_percentage (breakdownRows (sumAmounts []) (accumulate [sampleCategory ''c'' shokuhi, sampleCategory ''d'' sonota] []))
     = [Fin 0, Fin 0]"
  using zero_total_gives_zero_percentages
    [where entries = "[sampleEntry ''1'' 100 (str ''c''), sampleEntry ''2'' (- 100) (str ''d'')]"
       and categories = "[sampleCategory ''c'' shokuhi, sampleCategory ''d'' sonota]"
       and year = 2026 and month = 1]
  by (simp add: calculateMonthlySummary_def breakdownRows_def sumAmounts_def accumulate_def
      initCategoryMap_def addToCategory_def map_get_def js_sort_def sampleCategory_def sampleEntry_def
      str_def shokuhi_def sonota_def Let_def)

text \<open>
  Claim C2, as the code has it. For entries with non-negative amounts, the amounts of the
  breakdown sum to at most the total amount, and to exactly the total amount if and only
  if every entry with a positive amount has the id of a known category.
\<close>

theorem breakdown_sum_at_most_total:
  "(\<forall>e \<in> set entries. 0 \<le> e_amount e) \<longrightarrow>
     sum_list (map b_amount (s_categoryBreakdown (calculateMonthlySummary entries categories year month)))
       \<le> s_totalAmount (calculateMonthlySummary entries categories year month)
     \<and> (sum_list (map b_amount (s_categoryBreakdown (calculateMonthlySummary entries categories year month)))
          = s_totalAmount (calculateMonthlySummary entries categories year month)
        \<longleftrightarrow> (\<forall>e \<in> set entries. 0 < e_amount e \<longrightarrow> e_categoryId e \<in> c_id ` set categories))"
  using breakdown_le_total [of entries categories year month] by blast

text \<open>Witness: 100 and 300 in known categories, 7 in an unknown one.\<close>

theorem breakdown_sum_at_most_total_witness:
  "sum_list (map b_amount (s_categoryBreakdown (calculateMonthlySummary
       [sampleEntry ''1'' 100 (str ''c''), sampleEntry ''2'' 300 (str ''d''), sampleEntry ''3'' 7 (str ''x'')]
       [sampleCategory ''c'' shokuhi, sampleCategory ''d'' sonota] 2026 1))) = 400
   \<and> s_totalAmount (calculateMonthlySummary
       [sampleEntry ''1'' 100 (str ''c''), sampleEntry ''2'' 300 (str ''d''), sampleEntry ''3'' 7 (str ''x'')]
       [sampleCategory ''c'' shokuhi, sampleCategory ''d'' sonota] 2026 1) = 407
   \<and> sum_list (map b_amount (s_categoryBreakdown (calculateMonthlySummary
       [sampleEntry ''1'' 100 (str ''c''), sampleEntry ''2'' 300 (str ''d''), sampleEntry ''3'' 7 (str ''x'')]
       [sampleCategory ''c'' shokuhi, sampleCategory ''d'' sonota] 2026 1)))
     \<le> s_totalAmount (calculateMonthlySummary
       [sampleEntry ''1'' 100 (str ''c''), sampleEntry ''2'' 300 (str ''d''), sampleEntry ''3'' 7 (str ''x'')]
       [sampleCategory ''c'' shokuhi, sampleCategory ''d'' sonota] 2026 1)"
  using breakdown_sum_at_most_total
    [where entries = "[sampleEntry ''1'' 100 (str ''c''), sampleEntry ''2'' 300 (str ''d''), sampleEntry ''3'' 7 (str ''x'')]"
       and categories = "[sampleCategory ''c'' shokuhi, sampleCategory ''d'' sonota]"
       and year = 2026 and month = 1]
  by (simp add: calculateMonthlySummary_def breakdownRows_def sumAmounts_def accumulate_def
      initCategoryMap_def addToCategory_def map_get_def js_sort_def sampleCategory_def sampleEntry_def
      str_def Let_def)

text \<open>Counterexample to the claim as stated: an entry of amount 0 with an unknown
  category leaves the two sums equal; and an entry of a negative amount with an unknown
  category makes the sum of the breakdown exceed the total.\<close>

theorem breakdown_sum_equality_counterexample:
  "sum_list (map b_amount (s_categoryBreakdown (calculateMonthlySummary
       [sampleEntry ''1'' 100 (str ''c''), sampleEntry ''2'' 0 (str ''x'')]
       [sampleCategory ''c'' shokuhi] 2026 1)))
     = s_totalAmount (calculateMonthlySummary
       [sampleEntry ''1'' 100 (str ''c''), sampleEntry ''2'' 0 (str ''x'')]
       [sampleCategory ''c'' shokuhi] 2026 1)
   \<and> e_categoryId (sampleEntry ''2'' 0 (str ''x'')) \<notin> c_id ` set [sampleCategory ''c'' shokuhi]
   \<and> \<not> sum_list (map b_amount (s_categoryBreakdown (calculateMonthlySummary
       [sampleEntry ''1'' (- 50) (str ''x'')] [sampleCategory ''c'' shokuhi] 2026 1)))
     \<le> s_totalAmount (calculateMonthlySummary
       [sampleEntry ''1'' (- 50) (str ''x'')] [sampleCategory ''c'' shokuhi] 2026 1)"
  by (simp add: calculateMonthlySummary_def breakdownRows_def sumAmounts_def accumulate_def
      initCategoryMap_def addToCategory_def map_get_def js_sort_def sampleCategory_def sampleEntry_def
      str_def Let_def)

lemma sum_list_scaled:
  fixes t c :: rat
  shows "sum_list (map (\<lambda>b. c * (of_int (f b) / t)) bs) = c * (of_int (sum_list (map f bs)) / t)"
  by (induction bs) (simp_all add: add_divide_distrib distrib_left)

lemma sum_list_abs_diff:
  fixes f g h :: "'a \<Rightarrow> rat"
  assumes "\<forall>x \<in> set xs. \<bar>f x - g x\<bar> \<le> h x"
  shows "\<bar>sum_list (map f xs) - sum_list (map g xs)\<bar> \<le> sum_list (map h xs)"
  using assms
proof (induction xs)
  case Nil
  then show ?case by simp
next
  case (Cons x xs)
  then have "\<bar>f x - g x\<bar> \<le> h x"
    and "\<bar>sum_list (map f xs) - sum_list (map g xs)\<bar> \<le> sum_list (map h xs)"
    by simp_all
  then show ?case by simp
qed

text \<open>One percentage: the quotient and the product are rounded, each with a relative
  error of at most \<open>unitRoundoff\<close>.\<close>

lemma percentage_bounds:
  assumes "0 \<le> q" and "q \<le> 1"
  shows "0 \<le> binary64 (binary64 q * 100)" and "binary64 (binary64 q * 100) \<le> 100"
proof -
  have "binary64 0 \<le> binary64 q" using assms(1) by (intro binary64_mono) simp_all
  then have r0: "0 \<le> binary64 q" by (simp only: binary64_0)
  have "binary64 q \<le> binary64 1" using assms by (rule binary64_mono)
  then have r1: "binary64 q \<le> 1" by (simp only: binary64_1)
  have "binary64 0 \<le> binary64 (binary64 q * 100)" using r0 by (intro binary64_mono) simp_all
  then show "0 \<le> binary64 (binary64 q * 100)" by (simp only: binary64_0)
  have "binary64 (binary64 q * 100) \<le> binary64 100" using r0 r1 by (intro binary64_mono) simp_all
  then show "binary64 (binary64 q * 100) \<le> 100" by (simp only: binary64_100)
qed

lemma percentage_error:
  assumes "0 \<le> q"
  shows "\<bar>binary64 (binary64 q * 100) - 100 * q\<bar> \<le> 100 * (2 * unitRoundoff + unitRoundoff ^ 2) * q"
proof -
  define u where "u = unitRoundoff"
  have u: "0 \<le> u" by (simp add: u_def unitRoundoff_def)
  define r where "r = binary64 q"
  have "binary64 0 \<le> binary64 q" using assms by (intro binary64_mono) simp_all
  then have r0: "0 \<le> r" by (simp only: binary64_0 r_def)
  have e1: "\<bar>r - q\<bar> \<le> u * q"
    unfolding r_def u_def using assms by (rule binary64_error)
  have "0 \<le> r * 100" using r0 by simp
  then have "\<bar>binary64 (r * 100) - r * 100\<bar> \<le> u * (r * 100)"
    unfolding u_def by (rule binary64_error)
  then have e2: "\<bar>binary64 (r * 100) - r * 100\<bar> \<le> 100 * (u * r)"
    by (simp add: mult.commute mult.left_commute)
  have "r - q \<le> u * q" using e1 by (simp only: abs_le_iff)
  then have "r \<le> q + u * q" by simp
  then have "u * r \<le> u * (q + u * q)" using u by (rule mult_left_mono)
  then have ur: "u * r \<le> u * q + u ^ 2 * q" by (simp add: algebra_simps power2_eq_square)
  have "binary64 (r * 100) - 100 * q = (binary64 (r * 100) - r * 100) + 100 * (r - q)"
    by (simp add: algebra_simps)
  then have "\<bar>binary64 (r * 100) - 100 * q\<bar>
      \<le> \<bar>binary64 (r * 100) - r * 100\<bar> + \<bar>100 * (r - q)\<bar>"
    by (simp only: abs_triangle_ineq)
  also have "\<bar>100 * (r - q)\<bar> = 100 * \<bar>r - q\<bar>"
    by (simp only: abs_mult)
  also have "\<bar>binary64 (r * 100) - r * 100\<bar> + 100 * \<bar>r - q\<bar> \<le> 100 * (u * r) + 100 * (u * q)"
  proof -
    have "100 * \<bar>r - q\<bar> \<le> 100 * (u * q)" using e1 by simp
    with e2 show ?thesis by (rule add_mono)
  qed
  also have "\<dots> \<le> 100 * (u * q + u ^ 2 * q) + 100 * (u * q)"
  proof -
    have "100 * (u * r) \<le> 100 * (u * q + u ^ 2 * q)"
      using ur by (intro mult_left_mono) simp_all
    then show ?thesis by (rule add_right_mono)
  qed
  also have "\<dots> = 100 * (2 * u + u ^ 2) * q"
    by (simp add: algebra_simps)
  finally show ?thesis by (simp only: r_def u_def)
qed

lemma breakdown_positive_total:
  assumes n: "\<forall>e \<in> set es. 0 \<le> e_amount e"
    and b: "b \<in> set (s_categoryBreakdown (calculateMonthlySummary es cs y m))"
  shows "0 < b_amount b"
    and "b_amount b \<le> sum_list (map b_amount (s_categoryBreakdown (calculateMonthlySummary es cs y m)))"
    and "0 < s_totalAmount (calculateMonthlySummary es cs y m)"
proof -
  let ?B = "s_categoryBreakdown (calculateMonthlySummary es cs y m)"
  show p: "0 < b_amount b"
    using b by (rule breakdown_subset_rows)
  have "\<forall>x \<in> set ?B. 0 \<le> b_amount x"
    using breakdown_subset_rows(2) [of _ es cs y m] by force
  then show l: "b_amount b \<le> sum_list (map b_amount ?B)"
    using b by (rule member_le_sum_list_int)
  show "0 < s_totalAmount (calculateMonthlySummary es cs y m)"
    using p l breakdown_le_total(1) [OF n, of cs y m] by linarith
qed

lemma percentage_in_breakdown:
  assumes n: "\<forall>e \<in> set es. 0 \<le> e_amount e"
    and b: "b \<in> set (s_categoryBreakdown (calculateMonthlySummary es cs y m))"
  shows "b_percentage b
    = Fin (binary64 (binary64 (of_int (b_amount b)
             / of_int (s_totalAmount (calculateMonthlySummary es cs y m))) * 100))"
proof -
  have "0 < sumAmounts es"
    using breakdown_positive_total(3) [OF n b] by (simp add: total_unfold sumAmounts_sum_list)
  moreover have "b \<in> set (breakdownRows (sumAmounts es) (accumulate cs es))"
    using b by (rule breakdown_subset_rows)
  ultimately show ?thesis
    by (simp add: percentage_of_row total_unfold sumAmounts_sum_list)
qed

lemma share_in_breakdown:
  assumes n: "\<forall>e \<in> set es. 0 \<le> e_amount e"
    and b: "b \<in> set (s_categoryBreakdown (calculateMonthlySummary es cs y m))"
  shows "(0::rat) \<le> of_int (b_amount b) / of_int (s_totalAmount (calculateMonthlySummary es cs y m))"
    and "(of_int (b_amount b) :: rat) / of_int (s_totalAmount (calculateMonthlySummary es cs y m)) \<le> 1"
proof -
  let ?T = "s_totalAmount (calculateMonthlySummary es cs y m)"
  have t: "0 < ?T" and p: "0 < b_amount b"
    and l: "b_amount b \<le> sum_list (map b_amount (s_categoryBreakdown (calculateMonthlySummary es cs y m)))"
    using breakdown_positive_total [OF n b] by simp_all
  show "(0::rat) \<le> of_int (b_amount b) / of_int ?T" using t p by simp
  from l breakdown_le_total(1) [OF n, of cs y m] have "b_amount b \<le> ?T" by linarith
  then have "(of_int (b_amount b) :: rat) \<le> of_int ?T" by (simp only: of_int_le_iff)
  with t show "(of_int (b_amount b) :: rat) / of_int ?T \<le> 1" by (simp add: divide_le_eq)
qed

text \<open>
  Claim C1, as the code has it. For entries with non-negative amounts, every percentage
  of the breakdown is a number from 0 to 100; and when the breakdown is not empty and
  every entry with a positive amount has the id of a known category, the percentages sum
  to 100 within the rounding tolerance \<open>100 * (2 * u + u^2)\<close>, \<open>u = 2^-53\<close> the relative
  error of one rounding: each percentage is the exact one after the two roundings of the
  quotient and the product.
\<close>

theorem percentages_bounded_and_sum_near_100_when_matched:
  "(\<forall>e \<in> set entries. 0 \<le> e_amount e) \<longrightarrow>
     (\<forall>b \<in> set (s_categoryBreakdown (calculateMonthlySummary entries categories year month)).
        \<exists>p. b_percentage b = Fin p \<and> 0 \<le> p \<and> p \<le> 100)
     \<and> (s_categoryBreakdown (calculateMonthlySummary entries categories year month) \<noteq> []
          \<and> (\<forall>e \<in> set entries. 0 < e_amount e \<longrightarrow> e_categoryId e \<in> c_id ` set categories) \<longrightarrow>
        \<bar>sum_list (map (\<lambda>b. the_fin (b_percentage b))
             (s_categoryBreakdown (calculateMonthlySummary entries categories year month))) - 100\<bar>
          \<le> 100 * (2 * unitRoundoff + unitRoundoff ^ 2))"
proof (intro impI conjI ballI)
  let ?S = "calculateMonthlySummary entries categories year month"
  let ?B = "s_categoryBreakdown ?S"
  let ?T = "s_totalAmount ?S"
  let ?tol = "100 * (2 * unitRoundoff + unitRoundoff ^ 2)"
  assume n: "\<forall>e \<in> set entries. 0 \<le> e_amount e"
  {
    fix b
    assume b: "b \<in> set ?B"
    have "0 \<le> binary64 (binary64 (of_int (b_amount b) / of_int ?T) * 100)"
      and "binary64 (binary64 (of_int (b_amount b) / of_int ?T) * 100) \<le> 100"
      using share_in_breakdown [OF n b] by (rule percentage_bounds)+
    then show "\<exists>p. b_percentage b = Fin p \<and> 0 \<le> p \<and> p \<le> 100"
      by (simp add: percentage_in_breakdown [OF n b])
  }
  assume m: "?B \<noteq> [] \<and> (\<forall>e \<in> set entries. 0 < e_amount e \<longrightarrow> e_categoryId e \<in> c_id ` set categories)"
  then obtain b where "b \<in> set ?B" by (cases ?B) auto
  then have t: "0 < ?T" using breakdown_positive_total(3) [OF n] by blast
  have eq: "sum_list (map b_amount ?B) = ?T"
    using m breakdown_le_total(2) [OF n, of categories year month] by blast
  have "\<forall>b \<in> set ?B. \<bar>the_fin (b_percentage b) - 100 * (of_int (b_amount b) / of_int ?T)\<bar>
          \<le> ?tol * (of_int (b_amount b) / of_int ?T)"
  proof
    fix b
    assume b: "b \<in> set ?B"
    have "\<bar>binary64 (binary64 (of_int (b_amount b) / of_int ?T) * 100) - 100 * (of_int (b_amount b) / of_int ?T)\<bar>
          \<le> ?tol * (of_int (b_amount b) / of_int ?T)"
      using share_in_breakdown(1) [OF n b] by (rule percentage_error)
    then show "\<bar>the_fin (b_percentage b) - 100 * (of_int (b_amount b) / of_int ?T)\<bar>
          \<le> ?tol * (of_int (b_amount b) / of_int ?T)"
      by (simp only: percentage_in_breakdown [OF n b] the_fin.simps)
  qed
  then have "\<bar>sum_list (map (\<lambda>b. the_fin (b_percentage b)) ?B)
               - sum_list (map (\<lambda>b. 100 * (of_int (b_amount b) / of_int ?T)) ?B)\<bar>
             \<le> sum_list (map (\<lambda>b. ?tol * (of_int (b_amount b) / of_int ?T)) ?B)"
    by (rule sum_list_abs_diff)
  then have "\<bar>sum_list (map (\<lambda>b. the_fin (b_percentage b)) ?B)
               - 100 * (of_int (sum_list (map b_amount ?B)) / of_int ?T)\<bar>
             \<le> ?tol * (of_int (sum_list (map b_amount ?B)) / of_int ?T)"
    by (simp only: sum_list_scaled)
  then show "\<bar>sum_list (map (\<lambda>b. the_fin (b_percentage b)) ?B) - 100\<bar> \<le> ?tol"
    using t by (simp add: eq)
qed

text \<open>Some percentages, rounded as the code rounds them.\<close>

lemma percentage_1_of_3501: "binary64 (binary64 (1 / 3501) * 100) = 4116400687685115 / 2 ^ 57"
proof -
  have "binary64 (1 / 3501) = 5268992880236947 / 2 ^ 64"
    using binary64_eqI [of "1 / 3501" "-12" 5268992880236947] by simp
  moreover have "binary64 (5268992880236947 / 2 ^ 64 * 100) = 4116400687685115 / 2 ^ 57"
    using binary64_eqI [of "5268992880236947 / 2 ^ 64 * 100" "-6" 8232801375370230] by simp
  ultimately show ?thesis by (simp only:)
qed

lemma percentage_1000_of_3501: "binary64 (binary64 (1000 / 3501) * 100) = 8039845093134991 / 2 ^ 48"
proof -
  have "binary64 (1000 / 3501) = 5145500859606394 / 2 ^ 54"
    using binary64_eqI [of "1000 / 3501" "-2" 5145500859606394] by simp
  moreover have "binary64 (5145500859606394 / 2 ^ 54 * 100) = 8039845093134991 / 2 ^ 48"
    using binary64_eqI [of "5145500859606394 / 2 ^ 54 * 100" 4 8039845093134991] by simp
  ultimately show ?thesis by (simp only:)
qed

lemma percentage_2500_of_3501: "binary64 (binary64 (2500 / 3501) * 100) = 5024903183209369 / 2 ^ 46"
proof -
  have "binary64 (2500 / 3501) = 6431876074507992 / 2 ^ 53"
    using binary64_eqI [of "2500 / 3501" "-1" 6431876074507992] by simp
  moreover have "binary64 (6431876074507992 / 2 ^ 53 * 100) = 5024903183209369 / 2 ^ 46"
    using binary64_eqI [of "6431876074507992 / 2 ^ 53 * 100" 6 5024903183209369] by simp
  ultimately show ?thesis by (simp only:)
qed

lemma percentage_half: "binary64 (binary64 (1 / 2) * 100) = 50"
proof -
  have "binary64 (1 / 2) = 1 / 2" using binary64_exact_pos [of 1 "-1"] by simp
  moreover have "binary64 (1 / 2 * 100) = 50" using binary64_exact_pos [of 50 0] by simp
  ultimately show ?thesis by (simp only:)
qed

lemma percentage_double: "binary64 (binary64 2 * 100) = 200"
proof -
  have "binary64 2 = 2" using binary64_exact_pos [of 2 0] by simp
  moreover have "binary64 (2 * 100) = 200" using binary64_exact_pos [of 200 0] by simp
  ultimately show ?thesis by (simp only:)
qed

text \<open>Witness: the amounts 1, 1000 and 2500 in three known categories. The three
  percentages are the doubles the code computes; their exact sum is above 100 by
  \<open>1019 / 2^57\<close>, within the tolerance.\<close>

theorem percentages_bounded_and_sum_near_100_when_matched_witness:
  "map b_percentage (s_categoryBreakdown (calculateMonthlySummary
       [sampleEntry ''1'' 1 (str ''c''), sampleEntry ''2'' 1000 (str ''d''), sampleEntry ''3'' 2500 (str ''f'')]
       [sampleCategory ''c'' shokuhi, sampleCategory ''d'' sonota, sampleCategory ''f'' goraku] 2026 1))
     = [Fin (5024903183209369 / 2 ^ 46), Fin (8039845093134991 / 2 ^ 48), Fin (4116400687685115 / 2 ^ 57)]
   \<and> sum_list (map (\<lambda>b. the_fin (b_percentage b)) (s_categoryBreakdown (calculateMonthlySummary
       [sampleEntry ''1'' 1 (str ''c''), sampleEntry ''2'' 1000 (str ''d''), sampleEntry ''3'' 2500 (str ''f'')]
       [sampleCategory ''c'' shokuhi, sampleCategory ''d'' sonota, sampleCategory ''f'' goraku] 2026 1)))
     = 100 + 1019 / 2 ^ 57
   \<and> \<bar>sum_list (map (\<lambda>b. the_fin (b_percentage b)) (s_categoryBreakdown (calculateMonthlySummary
       [sampleEntry ''1'' 1 (str ''c''), sampleEntry ''2'' 1000 (str ''d''), sampleEntry ''3'' 2500 (str ''f'')]
       [sampleCategory ''c'' shokuhi, sampleCategory ''d'' sonota, sampleCategory ''f'' goraku] 2026 1))) - 100\<bar>
     \<le> 100 * (2 * unitRoundoff + unitRoundoff ^ 2)"
  using percentages_bounded_and_sum_near_100_when_matched
    [where entries = "[sampleEntry ''1'' 1 (str ''c''), sampleEntry ''2'' 1000 (str ''d''), sampleEntry ''3'' 2500 (str ''f'')]"
       and categories = "[sampleCategory ''c'' shokuhi, sampleCategory ''d'' sonota, sampleCategory ''f'' goraku]"
       and year = 2026 and month = 1]
  by (simp add: calculateMonthlySummary_def breakdownRows_def sumAmounts_def accumulate_def
      initCategoryMap_def addToCategory_def map_get_def js_sort_def js_div_def sampleCategory_def
      sampleEntry_def str_def Let_def percentage_1_of_3501 percentage_1000_of_3501
      percentage_2500_of_3501 unitRoundoff_def)

text \<open>Counterexample to the claim as stated: one entry under the category id
  \<^verbatim>\<open>default_0\<close> and one under a category name, as the scan screen stores it, give a breakdown
  of one row with percentage 50; and a negative amount in another category gives a
  percentage of 200.\<close>

theorem percentages_sum_counterexample:
  "map b_percentage (s_categoryBreakdown (calculateMonthlySummary
       [sampleEntry ''1'' 100 (str ''default_0''), sampleEntry ''2'' 100 shokuhi]
       [sampleCategory ''default_0'' shokuhi] 2026 1))
     = [Fin 50]
   \<and> sum_list (map (\<lambda>b. the_fin (b_percentage b)) (s_categoryBreakdown (calculateMonthlySummary
       [sampleEntry ''1'' 100 (str ''default_0''), sampleEntry ''2'' 100 shokuhi]
       [sampleCategory ''default_0'' shokuhi] 2026 1))) = 50
   \<and> map b_percentage (s_categoryBreakdown (calculateMonthlySummary
       [sampleEntry ''1'' 200 (str ''c''), sampleEntry ''2'' (- 100) (str ''d'')]
       [sampleCategory ''c'' shokuhi, sampleCategory ''d'' sonota] 2026 1))
     = [Fin 200]"
  by (simp add: calculateMonthlySummary_def breakdownRows_def sumAmounts_def accumulate_def
      initCategoryMap_def addToCategory_def map_get_def js_sort_def js_div_def sampleCategory_def
      sampleEntry_def str_def shokuhi_def Let_def percentage_half percentage_double)

subsection \<open>Ingestion\<close>

lemma loadEntries_addEntry: "loadEntries (addEntry e s) = loadEntries s @ [e]"
  by (simp add: addEntry_def loadEntries_def saveEntries_def)

lemma loadEntries_saveAll:
  "loadEntries (saveAll imageUri stamps k items s)
   = loadEntries s @ map (\<lambda>(i, item). makeEntry imageUri (stamps i) item) (enumerate k items)"
  by (induction items arbitrary: k s) (simp_all add: loadEntries_addEntry)

lemma analyzeImage_writes_one_entry_per_item:
  assumes "r_entries result \<noteq> []"
  shows "fst (analyzeImage imageUri (Inr result) stamps s) = Saved (length (r_entries result))"
    and "map e_categoryId (loadEntries (snd (analyzeImage imageUri (Inr result) stamps s)))
         = map e_categoryId (loadEntries s)
           @ map (\<lambda>item. case a_suggestedCategory item of
                            Some c \<Rightarrow> if c = [] then sonota else c | None \<Rightarrow> sonota)
                 (r_entries result)"
proof -
  show "fst (analyzeImage imageUri (Inr result) stamps s) = Saved (length (r_entries result))"
    using assms by (simp add: analyzeImage_def)
  have "map e_categoryId (map (\<lambda>(i, item). makeEntry imageUri (stamps i) item) (enumerate k items))
        = map (\<lambda>item. case a_suggestedCategory item of
                          Some c \<Rightarrow> if c = [] then sonota else c | None \<Rightarrow> sonota) items"
    for k items
    by (induction items arbitrary: k) (simp_all add: makeEntry_def Let_def)
  then show "map e_categoryId (loadEntries (snd (analyzeImage imageUri (Inr result) stamps s)))
         = map e_categoryId (loadEntries s)
           @ map (\<lambda>item. case a_suggestedCategory item of
                            Some c \<Rightarrow> if c = [] then sonota else c | None \<Rightarrow> sonota)
                 (r_entries result)"
    using assms by (simp add: analyzeImage_def loadEntries_saveAll)
qed

text \<open>
  Claim C3, evaluated on the code. For the guess gaishoku (eating out) the scan screen
  writes one entry whose \<open>categoryId\<close> is the guess itself, while \<open>normalizeCategoryName\<close>
  maps the guess to shokuhi (food): \<open>analyzeImage\<close> does not call the normaliser.
\<close>

theorem analyzeImage_stores_guess_unnormalised:
  "fst (analyzeImage (str ''file:///photo.jpg'') (Inr (sampleAnalysis [0x5916, 0x98DF])) sampleStamps
        \<lparr>ENTRIES = None, CATEGORIES = None, LAST_SYNC = None\<rparr>) = Saved 1
   \<and> map e_categoryId (loadEntries (snd (analyzeImage (str ''file:///photo.jpg'')
        (Inr (sampleAnalysis [0x5916, 0x98DF])) sampleStamps
        \<lparr>ENTRIES = None, CATEGORIES = None, LAST_SYNC = None\<rparr>))) = [[0x5916, 0x98DF]]
   \<and> normalizeCategoryName asciiLower (Some [0x5916, 0x98DF]) = shokuhi
   \<and> shokuhi \<noteq> [0x5916, 0x98DF]"
  by (simp add: analyzeImage_def sampleAnalysis_def makeEntry_def addEntry_def loadEntries_def
      saveEntries_def normalizeCategoryName_def categoryMap_def asciiLower_def trim_def isWhiteSpace_def
      shokuhi_def Let_def)

end
